theory Spec2Isabelle
  imports Complex_Main "HOL-Library.Multiset" "HOL-Library.Sublist"
begin

section \<open>Python values, exceptions and the environment\<close>

text \<open>
  A client record is a Python \<^verbatim>\<open>dict\<close> decoded from the server's JSON answer: a finite
  map from field names to values. The values that occur are \<^verbatim>\<open>None\<close>, booleans,
  integers and strings (JSON floats, lists and nested objects are not modelled: no field
  that \<^verbatim>\<open>check_urbackup.py\<close> reads carries one).
\<close>

datatype pyval = PNone | PBool bool | PInt int | PStr string

type_synonym client_data = "string \<rightharpoonup> pyval"

text \<open>
  Exceptions are values. \<open>KeyError\<close> carries the missing key, \<open>ReError\<close> is
  \<^verbatim>\<open>re.error\<close>, and \<open>ServerError\<close> stands for whatever the \<^verbatim>\<open>urbackup_api\<close> wrapper
  raises.
\<close>

datatype py_error =
    KeyError string
  | TypeError
  | OverflowError
  | ReError
  | ArgumentTypeError
  | ServerError string

definition and_then :: "py_error + 'a \<Rightarrow> ('a \<Rightarrow> py_error + 'b) \<Rightarrow> py_error + 'b" where
  "and_then m f = (case m of Inl e \<Rightarrow> Inl e | Inr v \<Rightarrow> f v)"

text \<open>\<^verbatim>\<open>client_data[key]\<close>: a missing key raises \<^verbatim>\<open>KeyError\<close>.\<close>

definition getitem :: "client_data \<Rightarrow> string \<Rightarrow> py_error + pyval" where
  "getitem d k = (case d k of None \<Rightarrow> Inl (KeyError k) | Some v \<Rightarrow> Inr v)"

text \<open>Truth value testing, as \<^verbatim>\<open>not x\<close> and \<^verbatim>\<open>if x\<close> do it.\<close>

fun truthy :: "pyval \<Rightarrow> bool" where
  "truthy PNone = False"
| "truthy (PBool b) = b"
| "truthy (PInt n) = (n \<noteq> 0)"
| "truthy (PStr s) = (s \<noteq> [])"

text \<open>Decimal rendering of integers, for \<^verbatim>\<open>str\<close> and the \<^verbatim>\<open>%i\<close> conversion.\<close>

definition digit :: "nat \<Rightarrow> char" where
  "digit n = char_of (48 + n)"

fun str_nat :: "nat \<Rightarrow> string" where
  "str_nat n = (if n < 10 then [digit n] else str_nat (n div 10) @ [digit (n mod 10)])"

declare str_nat.simps [simp del]

definition str_int :: "int \<Rightarrow> string" where
  "str_int i = (if i < 0 then CHR ''-'' # str_nat (nat (- i)) else str_nat (nat i))"

text \<open>\<^verbatim>\<open>str(x)\<close>, which is what an f-string replacement field \<^verbatim>\<open>{x}\<close> inserts.\<close>

fun py_str :: "pyval \<Rightarrow> string" where
  "py_str PNone = ''None''"
| "py_str (PBool b) = (if b then ''True'' else ''False'')"
| "py_str (PInt n) = str_int n"
| "py_str (PStr s) = s"

text \<open>\<^verbatim>\<open>sep.join(xs)\<close>\<close>

fun join :: "string \<Rightarrow> string list \<Rightarrow> string" where
  "join sep [] = []"
| "join sep [x] = x"
| "join sep (x # y # ys) = x @ sep @ join sep (y # ys)"

text \<open>
  What the program takes from the standard library and the machine it runs on is a
  parameter of the model:
  \<^item> \<open>now\<close>: the reading of \<^verbatim>\<open>datetime.now()\<close>, a naive local date and time, counted
    in whole seconds of local wall-clock time (the microsecond part never reaches the
    \<^verbatim>\<open>seconds\<close> attribute of a difference with a whole-second date); one reading
    serves a whole run, which lemma \<open>get_status_clock_irrelevant\<close> justifies;
  \<^item> \<open>fromtimestamp\<close>: \<^verbatim>\<open>datetime.fromtimestamp\<close> on an integer, on the same scale,
    or the exception it raises for a timestamp outside the platform's range;
  \<^item> \<open>strftime\<close>: \<^verbatim>\<open>strftime('%x %X')\<close> of such a date, which depends on the locale;
  \<^item> \<open>re_compile\<close>: \<^verbatim>\<open>re.compile\<close>, giving the compiled pattern's \<^verbatim>\<open>fullmatch\<close> as a
    predicate on strings, or \<^verbatim>\<open>re.error\<close> for an invalid pattern.
\<close>

record env =
  now :: int
  fromtimestamp :: "int \<Rightarrow> py_error + int"
  strftime :: "int \<Rightarrow> string"
  re_compile :: "string \<Rightarrow> py_error + (string \<Rightarrow> bool)"

text \<open>
  \<^verbatim>\<open>datetime.fromtimestamp(v)\<close> on a dictionary value: a \<^verbatim>\<open>bool\<close> is an \<^verbatim>\<open>int\<close> in
  Python, anything else that is not a number raises \<^verbatim>\<open>TypeError\<close>.
\<close>

fun datetime_fromtimestamp :: "env \<Rightarrow> pyval \<Rightarrow> py_error + int" where
  "datetime_fromtimestamp e (PInt t) = fromtimestamp e t"
| "datetime_fromtimestamp e (PBool b) = fromtimestamp e (if b then 1 else 0)"
| "datetime_fromtimestamp e PNone = Inl TypeError"
| "datetime_fromtimestamp e (PStr s) = Inl TypeError"

text \<open>
  A \<^verbatim>\<open>timedelta\<close> is normalised: \<open>0 \<le> seconds < 86400\<close>, and \<open>days\<close> carries the rest
  (negative for a date in the future). \<^verbatim>\<open>a - b\<close> on two naive dates:
\<close>

record timedelta =
  days :: int
  seconds :: int

definition datetime_sub :: "int \<Rightarrow> int \<Rightarrow> timedelta" where
  "datetime_sub a b = \<lparr>days = (a - b) div 86400, seconds = (a - b) mod 86400\<rparr>"

text \<open>\<^verbatim>\<open>int(x)\<close> on a number truncates towards zero.\<close>

definition py_int :: "rat \<Rightarrow> int" where
  "py_int q = (if 0 \<le> q then \<lfloor>q\<rfloor> else \<lceil>q\<rceil>)"

section \<open>The status types (lines 23--35)\<close>

datatype BackupStatus = OK | WARNING | CRITICAL

text \<open>The enumeration's values: \<^verbatim>\<open>OK = 0\<close>, \<^verbatim>\<open>WARNING = 1\<close>, \<^verbatim>\<open>CRITICAL = 2\<close>.\<close>

fun enum_value :: "BackupStatus \<Rightarrow> nat" where
  "enum_value OK = 0"
| "enum_value WARNING = 1"
| "enum_value CRITICAL = 2"

record BackupStatusResponse =
  status :: BackupStatus
  error :: string

section \<open>Staleness of one backup type (lines 118--131)\<close>

text \<open>
  \<^verbatim>\<open>
  def is_file_old(client_data, max_days):
      disabled = client_data["file_disabled"]
      last_backup = datetime.fromtimestamp(client_data["lastbackup"])
      diff = datetime.now() - last_backup
      diff_hours = int(diff.seconds / 60 / 60)
      return diff_hours / 24 > max_days and not disabled
  \<close>
  The two divisions are Python's true division. They are modelled on the rationals: with
  \<open>0 \<le> diff.seconds < 86400\<close> the quotient \<^verbatim>\<open>diff.seconds / 60 / 60\<close> is either a whole
  number computed exactly or at least \<open>1/3600\<close> away from one, and \<^verbatim>\<open>diff_hours / 24\<close> is
  compared with an integer, so floating-point rounding changes neither result.
  \<^verbatim>\<open>x and not y\<close> gives \<^verbatim>\<open>x\<close> when \<^verbatim>\<open>x\<close> is false, else \<^verbatim>\<open>not y\<close>.
\<close>

definition is_file_old :: "env \<Rightarrow> client_data \<Rightarrow> int \<Rightarrow> py_error + bool" where
  "is_file_old e client_data max_days =
     and_then (getitem client_data ''file_disabled'') (\<lambda>disabled.
     and_then (getitem client_data ''lastbackup'') (\<lambda>ts.
     and_then (datetime_fromtimestamp e ts) (\<lambda>last_backup.
       let diff = datetime_sub (now e) last_backup;
           diff_hours = py_int (rat_of_int (seconds diff) / 60 / 60)
       in Inr (if rat_of_int diff_hours / 24 > rat_of_int max_days
               then \<not> truthy disabled else False))))"

definition is_image_old :: "env \<Rightarrow> client_data \<Rightarrow> int \<Rightarrow> py_error + bool" where
  "is_image_old e client_data max_days =
     and_then (getitem client_data ''image_disabled'') (\<lambda>disabled.
     and_then (getitem client_data ''lastbackup_image'') (\<lambda>ts.
     and_then (datetime_fromtimestamp e ts) (\<lambda>last_backup.
       let diff = datetime_sub (now e) last_backup;
           diff_hours = py_int (rat_of_int (seconds diff) / 60 / 60)
       in Inr (if rat_of_int diff_hours / 24 > rat_of_int max_days
               then \<not> truthy disabled else False))))"

section \<open>The verdict on one client (lines 41--115)\<close>

text \<open>
  Lines 43--46 store \<^verbatim>\<open>False\<close> under \<^verbatim>\<open>"file_disabled"\<close> and \<^verbatim>\<open>"image_disabled"\<close> in
  the caller's dictionary when the key is absent.
\<close>

definition set_defaults :: "client_data \<Rightarrow> client_data" where
  "set_defaults client_data =
     (let d1 = (if client_data ''file_disabled'' = None
                then client_data(''file_disabled'' \<mapsto> PBool False) else client_data)
      in if d1 ''image_disabled'' = None then d1(''image_disabled'' \<mapsto> PBool False) else d1)"

text \<open>
  Lines 49--57, the pair \<^verbatim>\<open>(file_failed, file_str)\<close>:
  \<^verbatim>\<open>
  if not client_data["file_ok"] and not client_data["file_disabled"]:
      file_failed = True;  file_str = "No recent backup"
  elif client_data["file_ok"]:
      file_failed = False; file_str = "OK"
  else:
      file_failed = False; file_str = "Disabled"
  \<close>
  \<^verbatim>\<open>and\<close> reads its right operand only when the left one is true.
\<close>

definition file_check :: "client_data \<Rightarrow> py_error + (bool \<times> string)" where
  "file_check client_data =
     and_then (getitem client_data ''file_ok'') (\<lambda>ok.
     and_then (if \<not> truthy ok
               then and_then (getitem client_data ''file_disabled'') (\<lambda>dis. Inr (\<not> truthy dis))
               else Inr False) (\<lambda>failed.
       if failed then Inr (True, ''No recent backup'')
       else and_then (getitem client_data ''file_ok'') (\<lambda>ok'.
              if truthy ok' then Inr (False, ''OK'') else Inr (False, ''Disabled''))))"

text \<open>Lines 60--68, the same for the image backup.\<close>

definition image_check :: "client_data \<Rightarrow> py_error + (bool \<times> string)" where
  "image_check client_data =
     and_then (getitem client_data ''image_ok'') (\<lambda>ok.
     and_then (if \<not> truthy ok
               then and_then (getitem client_data ''image_disabled'') (\<lambda>dis. Inr (\<not> truthy dis))
               else Inr False) (\<lambda>failed.
       if failed then Inr (True, ''No recent backup'')
       else and_then (getitem client_data ''image_ok'') (\<lambda>ok'.
              if truthy ok' then Inr (False, ''OK'') else Inr (False, ''Disabled''))))"

text \<open>
  Lines 74--75: \<^verbatim>\<open>is_file_old(client_data, maxfiledays) if maxfiledays else False\<close>. The
  maximum age is \<^verbatim>\<open>None\<close> or an integer; \<^verbatim>\<open>None\<close> and \<open>0\<close> are false.
\<close>

definition file_old_check :: "env \<Rightarrow> client_data \<Rightarrow> int option \<Rightarrow> py_error + bool" where
  "file_old_check e client_data maxdays =
     (case maxdays of
        None \<Rightarrow> Inr False
      | Some n \<Rightarrow> if n \<noteq> 0 then is_file_old e client_data n else Inr False)"

definition image_old_check :: "env \<Rightarrow> client_data \<Rightarrow> int option \<Rightarrow> py_error + bool" where
  "image_old_check e client_data maxdays =
     (case maxdays of
        None \<Rightarrow> Inr False
      | Some n \<Rightarrow> if n \<noteq> 0 then is_image_old e client_data n else Inr False)"

text \<open>Lines 84--95, the verdict table.\<close>

definition client_verdict :: "pyval \<Rightarrow> bool \<Rightarrow> bool \<Rightarrow> BackupStatus" where
  "client_verdict client_online any_backup_failed any_backup_old =
     (if \<not> truthy client_online then
        (if any_backup_failed \<or> any_backup_old then CRITICAL else WARNING)
      else
        (if \<not> any_backup_failed \<and> \<not> any_backup_old then OK else CRITICAL))"

text \<open>Lines 98--114, the list \<^verbatim>\<open>client_details\<close> before it is joined.\<close>

definition client_details_list ::
  "BackupStatus \<Rightarrow> pyval \<Rightarrow> pyval \<Rightarrow> bool \<Rightarrow> bool \<Rightarrow> string \<Rightarrow> bool \<Rightarrow> bool \<Rightarrow> string
     \<Rightarrow> string \<Rightarrow> string \<Rightarrow> string list" where
  "client_details_list client_status client_name client_online file_old file_failed file_str
       image_old image_failed image_str last_file last_image =
     (if client_status \<noteq> OK then
        [''<b>HostName: '' @ py_str client_name @ ''</b>, Online: '' @ py_str client_online]
        @ (if file_old then [''<b>Last Filebackup: '' @ last_file @ ''</b>''] else [])
        @ (if file_failed then [''<b>Status Filebackup: '' @ file_str @ ''</b>''] else [])
        @ (if image_old then [''<b>Last Imagebackup: '' @ last_image @ ''</b>''] else [])
        @ (if image_failed then [''<b>Status Imagebackup: '' @ image_str @ ''</b>''] else [])
      else [])"

text \<open>
  \<open>get_status\<close> returns the response together with the dictionary as the call leaves it.
  The statements run in the source's order, so the first exception raised is the one
  returned; the defaults that lines 43--46 stored by then stay in the caller's
  dictionary, which the model of an exception does not show.
\<close>

definition get_status ::
  "env \<Rightarrow> client_data \<Rightarrow> int option \<Rightarrow> int option
     \<Rightarrow> py_error + (BackupStatusResponse \<times> client_data)" where
  "get_status e client_data0 maxfiledays maximagedays =
     (let client_data = set_defaults client_data0 in
      and_then (file_check client_data) (\<lambda>(file_failed, file_str).
      and_then (image_check client_data) (\<lambda>(image_failed, image_str).
      and_then (getitem client_data ''online'') (\<lambda>client_online.
      and_then (getitem client_data ''name'') (\<lambda>client_name.
      and_then (and_then (getitem client_data ''lastbackup'') (datetime_fromtimestamp e))
        (\<lambda>last_file_backup.
      and_then (and_then (getitem client_data ''lastbackup_image'') (datetime_fromtimestamp e))
        (\<lambda>last_image_backup.
      and_then (file_old_check e client_data maxfiledays) (\<lambda>file_old.
      and_then (image_old_check e client_data maximagedays) (\<lambda>image_old.
        let any_backup_failed = file_failed \<or> image_failed;
            any_backup_old = file_old \<or> image_old;
            client_status = client_verdict client_online any_backup_failed any_backup_old;
            client_details = client_details_list client_status client_name client_online
               file_old file_failed file_str image_old image_failed image_str
               (strftime e last_file_backup) (strftime e last_image_backup);
            data = join '', '' client_details
        in Inr (\<lparr>status = client_status, error = data\<rparr>, client_data))))))))))"

section \<open>Aggregation over the fleet (lines 136--160)\<close>

text \<open>
  The command line arguments, read by \<open>get_global_status\<close> from the global \<^verbatim>\<open>args\<close>.
  \<^verbatim>\<open>check_positive\<close> (lines 163--167) lets only positive integers into the two ages; it
  is modelled on the integer that \<^verbatim>\<open>int(value)\<close> gave.
\<close>

record args =
  user :: "string option"
  password :: "string option"
  client :: string
  maxfiledays :: "int option"
  maximagedays :: "int option"
  address :: string

definition check_positive :: "int \<Rightarrow> py_error + int" where
  "check_positive ivalue = (if ivalue \<le> 0 then Inl ArgumentTypeError else Inr ivalue)"

text \<open>
  The keys of \<^verbatim>\<open>global_count\<close> are the three enumeration members and the string
  \<^verbatim>\<open>"all"\<close>. \<^verbatim>\<open>d[k] += 1\<close> raises \<^verbatim>\<open>KeyError\<close> on a missing key.
\<close>

datatype count_key = Status_key BackupStatus | Str_key string

type_synonym count_dict = "count_key \<rightharpoonup> int"

fun key_repr :: "count_key \<Rightarrow> string" where
  "key_repr (Status_key OK) = ''BackupStatus.OK''"
| "key_repr (Status_key WARNING) = ''BackupStatus.WARNING''"
| "key_repr (Status_key CRITICAL) = ''BackupStatus.CRITICAL''"
| "key_repr (Str_key s) = s"

definition incr :: "count_dict \<Rightarrow> count_key \<Rightarrow> py_error + count_dict" where
  "incr m k = (case m k of None \<Rightarrow> Inl (KeyError (key_repr k)) | Some v \<Rightarrow> Inr (m(k \<mapsto> v + 1)))"

record gstate =
  global_status :: BackupStatus
  global_details :: string
  global_count :: count_dict

definition init_gstate :: gstate where
  "init_gstate =
     \<lparr>global_status = OK, global_details = [],
      global_count = [Status_key OK \<mapsto> 0, Status_key WARNING \<mapsto> 0, Status_key CRITICAL \<mapsto> 0,
                      Str_key ''all'' \<mapsto> 0]\<rparr>"

text \<open>\<^verbatim>\<open>regex.fullmatch(v)\<close> as a truth value; a value that is not a string raises.\<close>

fun fullmatch :: "(string \<Rightarrow> bool) \<Rightarrow> pyval \<Rightarrow> py_error + bool" where
  "fullmatch regex (PStr s) = Inr (regex s)"
| "fullmatch regex PNone = Inl TypeError"
| "fullmatch regex (PBool b) = Inl TypeError"
| "fullmatch regex (PInt n) = Inl TypeError"

definition newline :: string where
  "newline = [CHR 0x0A]"

text \<open>
  One iteration of the loop of lines 146--159, on the running state and the client at
  hand; it returns the new state and the client's dictionary as \<open>get_status\<close> left it.
\<close>

definition client_step ::
  "env \<Rightarrow> args \<Rightarrow> (string \<Rightarrow> bool) \<Rightarrow> client_data \<Rightarrow> gstate \<Rightarrow> py_error + (gstate \<times> client_data)" where
  "client_step e a regex c g =
     and_then (getitem c ''name'') (\<lambda>name.
     and_then (fullmatch regex name) (\<lambda>m.
       if m then
         and_then (get_status e c (maxfiledays a) (maximagedays a)) (\<lambda>(st, c').
         and_then (incr (global_count g) (Status_key (status st))) (\<lambda>count1.
         and_then (incr count1 (Str_key ''all'')) (\<lambda>count2.
           let g1 = g\<lparr>global_count := count2\<rparr> in
           if status st = OK then Inr (g1, c')
           else if status st = WARNING \<and> global_status g1 \<noteq> CRITICAL then
             Inr (g1\<lparr>global_status := WARNING,
                     global_details := global_details g1 @ error st @ newline\<rparr>, c')
           else
             Inr (g1\<lparr>global_status := CRITICAL,
                     global_details := global_details g1 @ error st @ newline\<rparr>, c'))))
       else Inr (g, c)))"

fun fold_clients ::
  "env \<Rightarrow> args \<Rightarrow> (string \<Rightarrow> bool) \<Rightarrow> client_data list \<Rightarrow> gstate
     \<Rightarrow> py_error + (gstate \<times> client_data list)" where
  "fold_clients e a regex [] g = Inr (g, [])"
| "fold_clients e a regex (c # cs) g =
     and_then (client_step e a regex c g) (\<lambda>(g', c').
     and_then (fold_clients e a regex cs g') (\<lambda>(g'', cs'). Inr (g'', c' # cs')))"

text \<open>
  \<open>get_global_status\<close> returns the triple of the source and, beside it, the client
  dictionaries as the loop leaves them.
\<close>

definition get_global_status ::
  "env \<Rightarrow> args \<Rightarrow> client_data list \<Rightarrow> string
     \<Rightarrow> py_error + ((BackupStatus \<times> string \<times> count_dict) \<times> client_data list)" where
  "get_global_status e a client_array client_pattern =
     and_then (re_compile e client_pattern) (\<lambda>regex.
     and_then (fold_clients e a regex client_array init_gstate) (\<lambda>(g, cs).
       Inr ((global_status g, global_details g, global_count g), cs)))"

section \<open>The command line layer (lines 179--198)\<close>

text \<open>
  Standard output is a list of printed lines; \<open>ErrorLine e\<close> is the line
  \<^verbatim>\<open>print("Error Occured: ", e)\<close> writes for the exception \<open>e\<close>.
\<close>

datatype out_line = Line string | ErrorLine py_error

text \<open>
  Lines 185, 189 and 193 subscript \<^verbatim>\<open>status\<close>, the enumeration member that
  \<open>get_global_status\<close> returned first, not \<^verbatim>\<open>count\<close>. An \<^verbatim>\<open>Enum\<close> member has no
  \<^verbatim>\<open>__getitem__\<close>: the subscription raises \<^verbatim>\<open>TypeError\<close> whatever the key.
\<close>

definition enum_getitem :: "BackupStatus \<Rightarrow> count_key \<Rightarrow> py_error + int" where
  "enum_getitem s k = Inl TypeError"

text \<open>
  The body of the \<^verbatim>\<open>try\<close> block ends in an exception, in \<^verbatim>\<open>sys.exit(n)\<close> after some
  output (\<^verbatim>\<open>SystemExit\<close> is no \<^verbatim>\<open>Exception\<close>, the handler lets it through), or falls
  off its end. \<open>fetched\<close> is what \<^verbatim>\<open>server.get_status()\<close> of the wrapper gives: an
  exception, \<^verbatim>\<open>None\<close> (the wrapper's answer to a failed login), or the list of clients.
  Iterating over \<^verbatim>\<open>None\<close> raises \<^verbatim>\<open>TypeError\<close>, after the pattern has been compiled.
\<close>

definition try_body ::
  "env \<Rightarrow> args \<Rightarrow> py_error + client_data list option \<Rightarrow> py_error + (out_line list \<times> nat option)" where
  "try_body e a fetched =
     and_then fetched (\<lambda>clients.
     and_then (case clients of
                 None \<Rightarrow> and_then (re_compile e (client a)) (\<lambda>regex. Inl TypeError)
               | Some cs \<Rightarrow> get_global_status e a cs (client a)) (\<lambda>((st, details, count), cs').
       if st = CRITICAL then
         and_then (enum_getitem st (Status_key OK)) (\<lambda>n_ok.
         and_then (enum_getitem st (Str_key ''all'')) (\<lambda>n_all.
         and_then (enum_getitem st (Status_key WARNING)) (\<lambda>n_warning.
         and_then (enum_getitem st (Status_key CRITICAL)) (\<lambda>n_critical.
           Inr ([Line (str_int n_ok @ ''/'' @ str_int n_all @ '' OK, '' @ str_int n_warning
                        @ '' WARNING, '' @ str_int n_critical @ '' CRITICAL''),
                 Line details], Some 2)))))
       else if st = WARNING then
         and_then (enum_getitem st (Status_key OK)) (\<lambda>n_ok.
         and_then (enum_getitem st (Str_key ''all'')) (\<lambda>n_all.
         and_then (enum_getitem st (Status_key WARNING)) (\<lambda>n_warning.
           Inr ([Line (str_int n_ok @ ''/'' @ str_int n_all @ '' OK, '' @ str_int n_warning
                        @ '' WARNING''),
                 Line details], Some 1))))
       else if st = OK then
         and_then (enum_getitem st (Status_key OK)) (\<lambda>n_ok.
         and_then (enum_getitem st (Str_key ''all'')) (\<lambda>n_all.
           Inr ([Line (str_int n_ok @ ''/'' @ str_int n_all @ '' OK'')], Some 0)))
       else Inr ([], None)))"

text \<open>
  The whole program after argument parsing: what it prints and its exit code. The handler
  prints the exception and falls through to lines 197--198.
\<close>

definition main :: "env \<Rightarrow> args \<Rightarrow> py_error + client_data list option \<Rightarrow> out_line list \<times> nat" where
  "main e a fetched =
     (case try_body e a fetched of
        Inl exn \<Rightarrow> ([ErrorLine exn, Line ''UNKOWN''], 3)
      | Inr (out, Some code) \<Rightarrow> (out, code)
      | Inr (out, None) \<Rightarrow> (out @ [Line ''UNKOWN''], 3))"

section \<open>Well-formed records and the vocabulary of the claims\<close>

text \<open>
  A well-formed client record has the required fields with values of their documented
  types, last-backup times that \<^verbatim>\<open>datetime.fromtimestamp\<close> accepts, and each of the two
  optional \<^verbatim>\<open>*_disabled\<close> flags either absent or a boolean.
\<close>

fun is_str :: "pyval option \<Rightarrow> bool" where
  "is_str (Some (PStr s)) = True"
| "is_str x = False"

fun is_bool :: "pyval option \<Rightarrow> bool" where
  "is_bool (Some (PBool b)) = True"
| "is_bool x = False"

fun is_opt_bool :: "pyval option \<Rightarrow> bool" where
  "is_opt_bool None = True"
| "is_opt_bool (Some (PBool b)) = True"
| "is_opt_bool x = False"

fun is_time :: "env \<Rightarrow> pyval option \<Rightarrow> bool" where
  "is_time e (Some (PInt t)) = (\<not> isl (fromtimestamp e t))"
| "is_time e x = False"

definition wf_client :: "env \<Rightarrow> client_data \<Rightarrow> bool" where
  "wf_client e d =
     (is_str (d ''name'') \<and> is_bool (d ''online'') \<and>
      is_bool (d ''file_ok'') \<and> is_bool (d ''image_ok'') \<and>
      is_opt_bool (d ''file_disabled'') \<and> is_opt_bool (d ''image_disabled'') \<and>
      is_time e (d ''lastbackup'') \<and> is_time e (d ''lastbackup_image''))"

text \<open>The value of a boolean field, an absent one counting as false.\<close>

definition field_true :: "client_data \<Rightarrow> string \<Rightarrow> bool" where
  "field_true d k = (case d k of None \<Rightarrow> False | Some v \<Rightarrow> truthy v)"

text \<open>The name of a record, as the text that the detail line shows.\<close>

definition name_of :: "client_data \<Rightarrow> string" where
  "name_of d = (case d ''name'' of None \<Rightarrow> [] | Some v \<Rightarrow> py_str v)"

text \<open>The time of a backup, as \<^verbatim>\<open>datetime.fromtimestamp\<close> gives it (\<open>0\<close> where it raises).\<close>

definition time_of :: "env \<Rightarrow> client_data \<Rightarrow> string \<Rightarrow> int" where
  "time_of e d k =
     (case d k of
        None \<Rightarrow> 0
      | Some v \<Rightarrow> (case datetime_fromtimestamp e v of Inl x \<Rightarrow> 0 | Inr t \<Rightarrow> t))"

text \<open>
  A backup type has failed when its \<^verbatim>\<open>*_ok\<close> flag is false and the type is not disabled;
  \<open>type_str\<close> is the text of lines 49--68 for it.
\<close>

definition type_failed :: "client_data \<Rightarrow> string \<Rightarrow> string \<Rightarrow> bool" where
  "type_failed d ok_key disabled_key = (\<not> field_true d ok_key \<and> \<not> field_true d disabled_key)"

definition type_str :: "client_data \<Rightarrow> string \<Rightarrow> string \<Rightarrow> string" where
  "type_str d ok_key disabled_key =
     (if type_failed d ok_key disabled_key then ''No recent backup''
      else if field_true d ok_key then ''OK'' else ''Disabled'')"

text \<open>
  The staleness rule of section 4.1 of the specification, in the specification's words: a
  type is old when a positive maximum age was supplied for it, the type is not disabled,
  and the time from its last backup to now exceeds the maximum age in days, the age being
  taken in whole elapsed hours (more than \<open>24 * maxAgeDays\<close> of them; exactly that many is
  not old).
\<close>

definition spec_old :: "env \<Rightarrow> client_data \<Rightarrow> string \<Rightarrow> string \<Rightarrow> int option \<Rightarrow> bool" where
  "spec_old e d time_key disabled_key maxdays =
     (case maxdays of
        None \<Rightarrow> False
      | Some n \<Rightarrow> 0 < n \<and> \<not> field_true d disabled_key \<and>
                  n * 24 < (now e - time_of e d time_key) div 3600)"

text \<open>Some enabled backup type has failed or is old, by the rules of the specification.\<close>

definition any_failed_or_old :: "env \<Rightarrow> client_data \<Rightarrow> int option \<Rightarrow> int option \<Rightarrow> bool" where
  "any_failed_or_old e d mf mi =
     (type_failed d ''file_ok'' ''file_disabled'' \<or> type_failed d ''image_ok'' ''image_disabled'' \<or>
      spec_old e d ''lastbackup'' ''file_disabled'' mf \<or>
      spec_old e d ''lastbackup_image'' ''image_disabled'' mi)"

text \<open>A maximum age as the command line passes it: unset, or not negative.\<close>

definition age_ok :: "int option \<Rightarrow> bool" where
  "age_ok maxdays = (case maxdays of None \<Rightarrow> True | Some n \<Rightarrow> 0 \<le> n)"

text \<open>
  What the tests of lines 74--75 come to on a well-formed record (lemmas
  \<open>file_old_check_wf\<close> and \<open>image_old_check_wf\<close> below).
\<close>

definition old_found :: "bool \<Rightarrow> int option \<Rightarrow> bool" where
  "old_found disabled maxdays = (case maxdays of None \<Rightarrow> False | Some n \<Rightarrow> n < 0 \<and> \<not> disabled)"

text \<open>The response of a call of \<open>get_status\<close>, without the dictionary.\<close>

definition response_of ::
  "py_error + (BackupStatusResponse \<times> client_data) \<Rightarrow> py_error + BackupStatusResponse" where
  "response_of r = (case r of Inl x \<Rightarrow> Inl x | Inr (resp, d) \<Rightarrow> Inr resp)"

text \<open>
  What a caller sees of an aggregation: the exception, or the returned status and detail
  text with the count dictionary read at its four keys, in the order \<^verbatim>\<open>OK\<close>,
  \<^verbatim>\<open>WARNING\<close>, \<^verbatim>\<open>CRITICAL\<close>, \<^verbatim>\<open>"all"\<close>.
\<close>

definition counts_of :: "count_dict \<Rightarrow> int option list" where
  "counts_of c = map c [Status_key OK, Status_key WARNING, Status_key CRITICAL, Str_key ''all'']"

definition outcome ::
  "py_error + ((BackupStatus \<times> string \<times> count_dict) \<times> client_data list)
     \<Rightarrow> py_error + (BackupStatus \<times> string \<times> int option list)" where
  "outcome r =
     (case r of Inl x \<Rightarrow> Inl x | Inr ((s, d, c), cs) \<Rightarrow> Inr (s, d, counts_of c))"

subsection \<open>The loop of the aggregation\<close>

text \<open>The count dictionary holds its four keys, as it does from line 140 on.\<close>

definition keys_ok :: "count_dict \<Rightarrow> bool" where
  "keys_ok c = (c (Status_key OK) \<noteq> None \<and> c (Status_key WARNING) \<noteq> None \<and>
                c (Status_key CRITICAL) \<noteq> None \<and> c (Str_key ''all'') \<noteq> None)"

text \<open>What an iteration of the loop learns of its client before it touches the running
  state: the exception raised, \<open>None\<close> for a name that the pattern does not match, or what
  \<open>get_status\<close> returned.\<close>

definition client_eval ::
  "env \<Rightarrow> args \<Rightarrow> (string \<Rightarrow> bool) \<Rightarrow> client_data
     \<Rightarrow> py_error + (BackupStatusResponse \<times> client_data) option" where
  "client_eval e a regex c =
     and_then (getitem c ''name'') (\<lambda>name.
     and_then (fullmatch regex name) (\<lambda>m.
       if m then and_then (get_status e c (maxfiledays a) (maximagedays a)) (\<lambda>r. Inr (Some r))
       else Inr None))"

text \<open>The record has a name, a string that the compiled pattern matches in full.\<close>

definition name_matches :: "(string \<Rightarrow> bool) \<Rightarrow> client_data \<Rightarrow> bool" where
  "name_matches regex c = (case c ''name'' of Some (PStr n) \<Rightarrow> regex n | _ \<Rightarrow> False)"

text \<open>The iteration on this client raises nothing.\<close>

definition evaluates :: "env \<Rightarrow> args \<Rightarrow> (string \<Rightarrow> bool) \<Rightarrow> client_data \<Rightarrow> bool" where
  "evaluates e a regex c = (\<not> isl (client_eval e a regex c))"

text \<open>The client's dictionary after its iteration.\<close>

definition client_after :: "env \<Rightarrow> args \<Rightarrow> (string \<Rightarrow> bool) \<Rightarrow> client_data \<Rightarrow> client_data" where
  "client_after e a regex c =
     (case client_eval e a regex c of Inr (Some (r, c')) \<Rightarrow> c' | _ \<Rightarrow> c)"

text \<open>The responses of the clients whose names match, in input order.\<close>

definition responses ::
  "env \<Rightarrow> args \<Rightarrow> (string \<Rightarrow> bool) \<Rightarrow> client_data list \<Rightarrow> BackupStatusResponse list" where
  "responses e a regex cs =
     List.map_filter
       (\<lambda>c. case client_eval e a regex c of Inr (Some (r, c')) \<Rightarrow> Some r | _ \<Rightarrow> None) cs"

text \<open>\<^verbatim>\<open>d[k] += 1\<close> where the key is present.\<close>

definition bump :: "count_dict \<Rightarrow> count_key \<Rightarrow> count_dict" where
  "bump c k = (case c k of None \<Rightarrow> c | Some v \<Rightarrow> c(k \<mapsto> v + 1))"

text \<open>Lines 149--159 on the running state, for a response, while no key is missing.\<close>

definition merge :: "gstate \<Rightarrow> BackupStatusResponse \<Rightarrow> gstate" where
  "merge g r =
     \<lparr>global_status =
        (if status r = OK then global_status g
         else if status r = WARNING \<and> global_status g \<noteq> CRITICAL then WARNING
         else CRITICAL),
      global_details =
        (if status r = OK then global_details g else global_details g @ error r @ newline),
      global_count = bump (bump (global_count g) (Status_key (status r))) (Str_key ''all'')\<rparr>"

text \<open>The merge table of section 4.2 of the specification: the running status in the rows,
  the new verdict in the columns.\<close>

fun merge_table :: "BackupStatus \<Rightarrow> BackupStatus \<Rightarrow> BackupStatus" where
  "merge_table OK new = new"
| "merge_table WARNING OK = WARNING"
| "merge_table WARNING WARNING = WARNING"
| "merge_table WARNING CRITICAL = CRITICAL"
| "merge_table CRITICAL new = CRITICAL"

text \<open>How many of the responses a key of the count dictionary counts.\<close>

definition tally :: "BackupStatusResponse list \<Rightarrow> count_key \<Rightarrow> int" where
  "tally rs k =
     (case k of
        Status_key s \<Rightarrow> int (length (filter (\<lambda>r. status r = s) rs))
      | Str_key x \<Rightarrow> if x = ''all'' then int (length rs) else 0)"

text \<open>A detail block: the detail text of a response and a line break.\<close>

definition detail_block :: "BackupStatusResponse \<Rightarrow> string" where
  "detail_block r = error r @ newline"

text \<open>What a client adds to the aggregate detail text: nothing when its verdict is \<open>OK\<close>,
  else its detail block.\<close>

definition detail_of :: "env \<Rightarrow> args \<Rightarrow> client_data \<Rightarrow> string" where
  "detail_of e a c =
     (case get_status e c (maxfiledays a) (maximagedays a) of
        Inl x \<Rightarrow> []
      | Inr (r, c') \<Rightarrow> if status r = OK then [] else error r @ newline)"

text \<open>\<open>get_status\<close> returns on the record, with this verdict.\<close>

definition verdict_is :: "env \<Rightarrow> args \<Rightarrow> BackupStatus \<Rightarrow> client_data \<Rightarrow> bool" where
  "verdict_is e a t c =
     (case get_status e c (maxfiledays a) (maximagedays a) of
        Inl x \<Rightarrow> False
      | Inr (r, c') \<Rightarrow> status r = t)"

text \<open>The running state that the loop ends with, or its exception.\<close>

definition state_of :: "py_error + (gstate \<times> client_data list) \<Rightarrow> py_error + gstate" where
  "state_of r = (case r of Inl x \<Rightarrow> Inl x | Inr (g, cs) \<Rightarrow> Inr g)"

section \<open>Concrete inputs\<close>

text \<open>
  A machine on UTC, 10 days and 5 hours after the epoch. Its locale prints a date as its
  count of seconds. Of the patterns, it knows \<^verbatim>\<open>.*\<close> (any text without a line break) and
  takes every other pattern for a literal, which is right for the patterns without
  metacharacters used below.
\<close>

definition demo_env :: env where
  "demo_env =
     \<lparr>now = 882000,
      fromtimestamp = (\<lambda>t. if - 62135596800 \<le> t \<and> t \<le> 253402300799 then Inr t
                             else Inl OverflowError),
      strftime = str_int,
      re_compile = (\<lambda>p. if p = ''.*'' then Inr (\<lambda>s. CHR 0x0A \<notin> set s) else Inr (\<lambda>s. s = p))\<rparr>"

definition demo_args :: args where
  "demo_args =
     \<lparr>user = Some ''admin'', password = Some ''secret'', client = ''.*'',
      maxfiledays = None, maximagedays = None, address = ''http://backup:55414''\<rparr>"

text \<open>Online, both backups fine and taken just now; the optional flags are absent.\<close>

definition client_a :: client_data where
  "client_a = map_of
     [(''name'', PStr ''a''), (''online'', PBool True),
      (''file_ok'', PBool True), (''image_ok'', PBool True),
      (''lastbackup'', PInt 882000), (''lastbackup_image'', PInt 882000)]"

text \<open>The same, offline.\<close>

definition client_b :: client_data where
  "client_b = map_of
     [(''name'', PStr ''b''), (''online'', PBool False),
      (''file_ok'', PBool True), (''image_ok'', PBool True),
      (''lastbackup'', PInt 882000), (''lastbackup_image'', PInt 882000)]"

text \<open>Online, the file backup failed.\<close>

definition client_c :: client_data where
  "client_c = map_of
     [(''name'', PStr ''c''), (''online'', PBool True),
      (''file_ok'', PBool False), (''image_ok'', PBool True),
      (''lastbackup'', PInt 882000), (''lastbackup_image'', PInt 882000)]"

text \<open>Online, the file backup failed, and a name of which \<^verbatim>\<open>b\<close> is only a part.\<close>

definition client_bb :: client_data where
  "client_bb = map_of
     [(''name'', PStr ''bb''), (''online'', PBool True),
      (''file_ok'', PBool False), (''image_ok'', PBool True),
      (''lastbackup'', PInt 882000), (''lastbackup_image'', PInt 882000)]"

text \<open>Online, both backup types disabled, marked not ok and last taken at the epoch.\<close>

definition client_d :: client_data where
  "client_d = map_of
     [(''name'', PStr ''d''), (''online'', PBool True),
      (''file_ok'', PBool False), (''image_ok'', PBool False),
      (''file_disabled'', PBool True), (''image_disabled'', PBool True),
      (''lastbackup'', PInt 0), (''lastbackup_image'', PInt 0)]"

text \<open>
  Online, both backups marked ok, the last file backup 10 days and 5 hours old, the
  image backup taken just now.
\<close>

definition client_stale :: client_data where
  "client_stale = map_of
     [(''name'', PStr ''old''), (''online'', PBool True),
      (''file_ok'', PBool True), (''image_ok'', PBool True),
      (''file_disabled'', PBool False), (''image_disabled'', PBool False),
      (''lastbackup'', PInt 0), (''lastbackup_image'', PInt 882000)]"

section \<open>Basic facts\<close>

lemma and_then_Inl [simp]: "and_then (Inl x) f = Inl x"
  by (simp add: and_then_def)

lemma and_then_Inr [simp]: "and_then (Inr v) f = f v"
  by (simp add: and_then_def)

lemma and_then_eq_Inr: "and_then m f = Inr y \<longleftrightarrow> (\<exists>v. m = Inr v \<and> f v = Inr y)"
  by (cases m) simp_all

lemma getitem_Some [simp]: "d k = Some v \<Longrightarrow> getitem d k = Inr v"
  by (simp add: getitem_def)

lemma getitem_None [simp]: "d k = None \<Longrightarrow> getitem d k = Inl (KeyError k)"
  by (simp add: getitem_def)

subsection \<open>The staleness test in whole numbers\<close>

lemma seconds_range: "0 \<le> seconds (datetime_sub a b) \<and> seconds (datetime_sub a b) < 86400"
  by (simp add: datetime_sub_def)

lemma py_int_hours: "0 \<le> s \<Longrightarrow> py_int (rat_of_int s / 60 / 60) = s div 3600"
proof -
  assume s: "0 \<le> s"
  have "rat_of_int s / 60 / 60 = rat_of_int s / rat_of_int 3600" by simp
  moreover have "\<lfloor>rat_of_int s / rat_of_int 3600\<rfloor> = s div 3600"
    by (rule floor_divide_of_int_eq)
  moreover have "0 \<le> rat_of_int s / 60 / 60" using s by simp
  ultimately show ?thesis by (simp add: py_int_def)
qed

lemma diff_hours_range:
  "0 \<le> seconds (datetime_sub a b) div 3600 \<and> seconds (datetime_sub a b) div 3600 \<le> 23"
proof -
  have "0 \<le> seconds (datetime_sub a b)" "seconds (datetime_sub a b) < 86400"
    using seconds_range by simp_all
  then show ?thesis by (simp add: pos_imp_zdiv_nonneg_iff zdiv_mono1 div_le_mono)
qed

lemma days_compare: "(rat_of_int n < rat_of_int h / 24) \<longleftrightarrow> (n * 24 < h)"
proof -
  have "(rat_of_int n < rat_of_int h / 24) \<longleftrightarrow> rat_of_int n * 24 < rat_of_int h"
    by (rule pos_less_divide_eq) simp
  also have "rat_of_int n * 24 = rat_of_int (n * 24)" by simp
  also have "rat_of_int (n * 24) < rat_of_int h \<longleftrightarrow> n * 24 < h" by (rule of_int_less_iff)
  finally show ?thesis .
qed

lemma old_test:
  "(let diff = datetime_sub a b;
        diff_hours = py_int (rat_of_int (seconds diff) / 60 / 60)
    in (Inr (if rat_of_int diff_hours / 24 > rat_of_int n then \<not> t else False) :: py_error + bool))
   = Inr (n * 24 < seconds (datetime_sub a b) div 3600 \<and> \<not> t)"
proof -
  have "py_int (rat_of_int (seconds (datetime_sub a b)) / 60 / 60)
          = seconds (datetime_sub a b) div 3600"
    using seconds_range [of a b] by (intro py_int_hours) simp
  then show ?thesis by (simp only: Let_def days_compare) simp
qed

lemma is_file_old_int:
  "is_file_old e d n =
     and_then (getitem d ''file_disabled'') (\<lambda>disabled.
     and_then (getitem d ''lastbackup'') (\<lambda>ts.
     and_then (datetime_fromtimestamp e ts) (\<lambda>t.
       Inr (n * 24 < seconds (datetime_sub (now e) t) div 3600 \<and> \<not> truthy disabled))))"
  unfolding is_file_old_def by (simp only: old_test)

lemma is_image_old_int:
  "is_image_old e d n =
     and_then (getitem d ''image_disabled'') (\<lambda>disabled.
     and_then (getitem d ''lastbackup_image'') (\<lambda>ts.
     and_then (datetime_fromtimestamp e ts) (\<lambda>t.
       Inr (n * 24 < seconds (datetime_sub (now e) t) div 3600 \<and> \<not> truthy disabled))))"
  unfolding is_image_old_def by (simp only: old_test)

lemma hours_vs_days:
  "(n * 24 < seconds (datetime_sub a b) div 3600) \<longleftrightarrow>
     (n < 0 \<or> (n = 0 \<and> 0 < seconds (datetime_sub a b) div 3600))"
  using diff_hours_range [of a b] by arith

section \<open>Well-formed records\<close>

lemma is_strE: "is_str x \<Longrightarrow> \<exists>s. x = Some (PStr s)"
  by (cases x rule: is_str.cases) simp_all

lemma is_boolE: "is_bool x \<Longrightarrow> \<exists>b. x = Some (PBool b)"
  by (cases x rule: is_bool.cases) simp_all

lemma is_opt_boolE: "is_opt_bool x \<Longrightarrow> x = None \<or> (\<exists>b. x = Some (PBool b))"
  by (cases x rule: is_opt_bool.cases) simp_all

lemma not_isl_Inr: "\<not> isl m \<Longrightarrow> \<exists>u. m = Inr u"
  by (cases m) simp_all

lemma is_timeE: "is_time e x \<Longrightarrow> \<exists>t u. x = Some (PInt t) \<and> fromtimestamp e t = Inr u"
  by (cases "(e, x)" rule: is_time.cases) (simp_all add: not_isl_Inr)

lemma set_defaults_apply:
  "set_defaults d k =
     (if (k = ''file_disabled'' \<or> k = ''image_disabled'') \<and> d k = None
      then Some (PBool False) else d k)"
  by (simp add: set_defaults_def Let_def)

lemma file_check_wf:
  assumes "is_bool (d ''file_ok'')" "is_opt_bool (d ''file_disabled'')"
  shows "file_check (set_defaults d)
           = Inr (type_failed d ''file_ok'' ''file_disabled'', type_str d ''file_ok'' ''file_disabled'')"
  using is_boolE [OF assms(1)] is_opt_boolE [OF assms(2)]
  by (auto simp: file_check_def set_defaults_apply type_failed_def type_str_def field_true_def)

lemma image_check_wf:
  assumes "is_bool (d ''image_ok'')" "is_opt_bool (d ''image_disabled'')"
  shows "image_check (set_defaults d)
           = Inr (type_failed d ''image_ok'' ''image_disabled'', type_str d ''image_ok'' ''image_disabled'')"
  using is_boolE [OF assms(1)] is_opt_boolE [OF assms(2)]
  by (auto simp: image_check_def set_defaults_apply type_failed_def type_str_def field_true_def)

lemma file_old_check_wf:
  assumes "is_opt_bool (d ''file_disabled'')" "is_time e (d ''lastbackup'')"
  shows "file_old_check e (set_defaults d) mf = Inr (old_found (field_true d ''file_disabled'') mf)"
proof -
  obtain t u where t: "d ''lastbackup'' = Some (PInt t)" "fromtimestamp e t = Inr u"
    using is_timeE [OF assms(2)] by blast
  show ?thesis
    using is_opt_boolE [OF assms(1)] t
    by (cases mf)
      (auto simp: file_old_check_def is_file_old_int set_defaults_apply old_found_def
        field_true_def hours_vs_days)
qed

lemma image_old_check_wf:
  assumes "is_opt_bool (d ''image_disabled'')" "is_time e (d ''lastbackup_image'')"
  shows "image_old_check e (set_defaults d) mi = Inr (old_found (field_true d ''image_disabled'') mi)"
proof -
  obtain t u where t: "d ''lastbackup_image'' = Some (PInt t)" "fromtimestamp e t = Inr u"
    using is_timeE [OF assms(2)] by blast
  show ?thesis
    using is_opt_boolE [OF assms(1)] t
    by (cases mi)
      (auto simp: image_old_check_def is_image_old_int set_defaults_apply old_found_def
        field_true_def hours_vs_days)
qed


lemma get_status_wf:
  assumes "wf_client e d"
  shows "get_status e d mf mi =
     Inr (let ff = type_failed d ''file_ok'' ''file_disabled'';
              imf = type_failed d ''image_ok'' ''image_disabled'';
              fo = old_found (field_true d ''file_disabled'') mf;
              io = old_found (field_true d ''image_disabled'') mi;
              online = PBool (field_true d ''online'');
              st = client_verdict online (ff \<or> imf) (fo \<or> io)
          in \<lparr>status = st,
              error = join '', '' (client_details_list st (PStr (name_of d)) online
                 fo ff (type_str d ''file_ok'' ''file_disabled'')
                 io imf (type_str d ''image_ok'' ''image_disabled'')
                 (strftime e (time_of e d ''lastbackup''))
                 (strftime e (time_of e d ''lastbackup_image'')))\<rparr>,
          set_defaults d)"
proof -
  from assms have w: "is_str (d ''name'')" "is_bool (d ''online'')"
    "is_bool (d ''file_ok'')" "is_bool (d ''image_ok'')"
    "is_opt_bool (d ''file_disabled'')" "is_opt_bool (d ''image_disabled'')"
    "is_time e (d ''lastbackup'')" "is_time e (d ''lastbackup_image'')"
    by (simp_all add: wf_client_def)
  obtain n where n: "d ''name'' = Some (PStr n)" using is_strE [OF w(1)] by blast
  obtain b where b: "d ''online'' = Some (PBool b)" using is_boolE [OF w(2)] by blast
  obtain t u where t: "d ''lastbackup'' = Some (PInt t)" "fromtimestamp e t = Inr u"
    using is_timeE [OF w(7)] by blast
  obtain t' u' where t': "d ''lastbackup_image'' = Some (PInt t')" "fromtimestamp e t' = Inr u'"
    using is_timeE [OF w(8)] by blast
  show ?thesis
    unfolding get_status_def Let_def
    by (simp add: file_check_wf [OF w(3,5)] image_check_wf [OF w(4,6)]
        file_old_check_wf [OF w(5,7)] image_old_check_wf [OF w(6,8)]
        set_defaults_apply n b t t' name_of_def time_of_def field_true_def)
qed

lemma header_sublist: "sublist n (''<b>HostName: '' @ n @ rest)"
  unfolding sublist_def by blast

lemma wf_client_upd_file:
  assumes "wf_client e d" "\<not> isl (fromtimestamp e t)"
  shows "wf_client e (d(''file_ok'' \<mapsto> PBool b, ''lastbackup'' \<mapsto> PInt t))"
  using assms by (simp add: wf_client_def)

lemma wf_client_upd_image:
  assumes "wf_client e d" "\<not> isl (fromtimestamp e t)"
  shows "wf_client e (d(''image_ok'' \<mapsto> PBool b, ''lastbackup_image'' \<mapsto> PInt t))"
  using assms by (simp add: wf_client_def)

lemma field_true_upd [simp]:
  "field_true (d(k \<mapsto> v)) k' = (if k' = k then truthy v else field_true d k')"
  by (simp add: field_true_def)

lemma name_of_upd [simp]: "k \<noteq> ''name'' \<Longrightarrow> name_of (d(k \<mapsto> v)) = name_of d"
  by (simp add: name_of_def)

lemma time_of_upd [simp]: "k' \<noteq> k \<Longrightarrow> time_of e (d(k \<mapsto> v)) k' = time_of e d k'"
  by (simp add: time_of_def)

lemma old_found_disabled [simp]: "old_found True m = False"
  by (simp add: old_found_def split: option.splits)

lemma details_without_file:
  "client_details_list st n on False False s io imf istr l li
     = client_details_list st n on False False [] io imf istr [] li"
  by (simp add: client_details_list_def)

lemma details_without_image:
  "client_details_list st n on fo ff s False False istr l li
     = client_details_list st n on fo ff s False False [] l []"
  by (simp add: client_details_list_def)

lemma get_status_dict:
  assumes "get_status e d mf mi = Inr (r, d')"
  shows "d' = set_defaults d"
  using assms unfolding get_status_def Let_def
  by (auto simp: and_then_eq_Inr)

subsection \<open>Evaluation of the concrete inputs\<close>

lemmas get_status_unfold =
  get_status_def set_defaults_def file_check_def image_check_def
  file_old_check_def image_old_check_def client_verdict_def client_details_list_def

lemmas eval_unfold =
  get_status_unfold is_file_old_int is_image_old_int datetime_sub_def wf_client_def
  field_true_def response_of_def

lemma get_status_client_a:
  "get_status demo_env client_a None None = Inr (\<lparr>status = OK, error = []\<rparr>, set_defaults client_a)"
  by (simp add: get_status_unfold client_a_def demo_env_def)

section \<open>The verdict on one client\<close>

subsection \<open>Staleness\<close>

text \<open>
  \<^verbatim>\<open>diff.seconds\<close> is the seconds field of the normalised difference, below one day
  whatever the age of the backup, so \<^verbatim>\<open>diff_hours\<close> is at most 23 and
  \<^verbatim>\<open>diff_hours / 24\<close> is below 1: against a positive maximum age the test is never true.
\<close>

lemma is_file_old_positive:
  assumes "0 < n" "is_file_old e d n = Inr b"
  shows "\<not> b"
  using assms diff_hours_range
  by (auto simp: is_file_old_int and_then_eq_Inr hours_vs_days)

lemma is_image_old_positive:
  assumes "0 < n" "is_image_old e d n = Inr b"
  shows "\<not> b"
  using assms diff_hours_range
  by (auto simp: is_image_old_int and_then_eq_Inr hours_vs_days)

text \<open>
  Against a negative maximum age the test is true for every type that is not disabled.
  The command line never passes one: \<open>check_positive\<close> accepts positive numbers only.
\<close>

lemma is_file_old_negative:
  assumes "n < 0" "is_file_old e d n = Inr b"
  shows "\<exists>v. d ''file_disabled'' = Some v \<and> b = (\<not> truthy v)"
  using assms
  by (auto simp: is_file_old_int and_then_eq_Inr hours_vs_days getitem_def split: option.splits)

text \<open>
  The verdict does not depend on the reading of the clock, so the single reading \<open>now\<close>
  stands for the readings that the calls of one run take one after the other.
\<close>

lemma datetime_fromtimestamp_now [simp]:
  "datetime_fromtimestamp (e\<lparr>now := t\<rparr>) = datetime_fromtimestamp e"
proof
  fix v show "datetime_fromtimestamp (e\<lparr>now := t\<rparr>) v = datetime_fromtimestamp e v"
    by (cases v) simp_all
qed

lemma is_file_old_clock:
  assumes "n \<noteq> 0"
  shows "is_file_old (e\<lparr>now := t\<rparr>) d n = is_file_old e d n"
  using assms by (simp add: is_file_old_int hours_vs_days)

lemma is_image_old_clock:
  assumes "n \<noteq> 0"
  shows "is_image_old (e\<lparr>now := t\<rparr>) d n = is_image_old e d n"
  using assms by (simp add: is_image_old_int hours_vs_days)

lemma get_status_clock_irrelevant:
  "get_status (e\<lparr>now := t\<rparr>) d mf mi = get_status e d mf mi"
proof -
  have f: "file_old_check (e\<lparr>now := t\<rparr>) c mf = file_old_check e c mf" for c
    by (cases mf) (simp_all add: file_old_check_def is_file_old_clock)
  have i: "image_old_check (e\<lparr>now := t\<rparr>) c mi = image_old_check e c mi" for c
    by (cases mi) (simp_all add: image_old_check_def is_image_old_clock)
  show ?thesis by (simp add: get_status_def f i)
qed

lemma check_positive_result: "check_positive v = Inr n \<longleftrightarrow> (0 < v \<and> n = v)"
  by (auto simp: check_positive_def)

text \<open>
  Claim C1, a type is old if and only if it is not disabled and the time since its last
  backup exceeds the maximum age in days. The code does not do this. With a maximum age
  of one day, the file backup of \<open>client_stale\<close> is 10 days and 5 hours old and not
  disabled; \<open>is_file_old\<close> answers \<^verbatim>\<open>False\<close>, and the client's verdict is \<open>OK\<close>.
\<close>

theorem stale_backup_not_found_old:
  "client_stale ''lastbackup'' = Some (PInt 0) \<and>
   now demo_env - 0 = 10 * 86400 + 5 * 3600 \<and>
   \<not> field_true client_stale ''file_disabled'' \<and>
   is_file_old demo_env client_stale 1 = Inr False \<and>
   response_of (get_status demo_env client_stale (Some 1) (Some 1))
     = Inr \<lparr>status = OK, error = []\<rparr>"
  by (simp add: eval_unfold client_stale_def demo_env_def)

subsection \<open>The verdict table\<close>

text \<open>
  For the maximum ages that the command line can pass, the verdict of a well-formed record
  is the table of lines 84--95 on the online flag and the failure of an enabled type
  alone: the age of a backup has no part in it.
\<close>

lemma old_found_age_ok: "age_ok m \<Longrightarrow> old_found dis m = False"
  by (auto simp: age_ok_def old_found_def split: option.splits)

lemma get_status_ignores_staleness:
  assumes "wf_client e d" "age_ok mf" "age_ok mi"
  shows "\<exists>r. get_status e d mf mi = Inr (r, set_defaults d) \<and>
     (if field_true d ''online''
      then (if type_failed d ''file_ok'' ''file_disabled'' \<or> type_failed d ''image_ok'' ''image_disabled''
            then status r = CRITICAL
            else status r = OK \<and> error r = [])
      else (if type_failed d ''file_ok'' ''file_disabled'' \<or> type_failed d ''image_ok'' ''image_disabled''
            then status r = CRITICAL
            else status r = WARNING \<and> error r \<noteq> [] \<and> sublist (name_of d) (error r)))"
  unfolding get_status_wf [OF assms(1)] Let_def
  by (auto simp: old_found_age_ok [OF assms(2)] old_found_age_ok [OF assms(3)]
      client_verdict_def client_details_list_def header_sublist [simplified])

text \<open>
  Claim C2, the verdict is given by the online flag and by whether some enabled backup
  type failed or is old: online with a failure or staleness gives \<open>CRITICAL\<close>. The code
  does not do this. \<open>client_stale\<close> is well-formed and online, nothing of it failed, and
  with a maximum age of one day its file backup, 10 days and 5 hours old and not disabled,
  is old by the rule of the specification; the verdict that \<open>get_status\<close> returns is \<open>OK\<close>,
  with an empty detail text, where the claim has \<open>CRITICAL\<close>.
\<close>

theorem stale_client_verdict_ok:
  "wf_client demo_env client_stale \<and>
   field_true client_stale ''online'' \<and>
   spec_old demo_env client_stale ''lastbackup'' ''file_disabled'' (Some 1) \<and>
   any_failed_or_old demo_env client_stale (Some 1) (Some 1) \<and>
   get_status demo_env client_stale (Some 1) (Some 1)
     = Inr (\<lparr>status = OK, error = []\<rparr>, set_defaults client_stale)"
  by (simp add: eval_unfold any_failed_or_old_def spec_old_def time_of_def
      client_stale_def demo_env_def)


subsection \<open>Disabled backup types\<close>

text \<open>
  Claim C4. On a well-formed record, a backup type that is marked disabled is found
  neither failed nor old, and the response is the same whatever its \<^verbatim>\<open>*_ok\<close> flag and
  its last backup time are; for the file backup and for the image backup.
\<close>

theorem disabled_type_masked:
  assumes "wf_client e d" and "\<not> isl (fromtimestamp e t)"
  shows "(field_true d ''file_disabled'' \<longrightarrow>
            (\<exists>s. file_check (set_defaults d) = Inr (False, s)) \<and>
            file_old_check e (set_defaults d) mf = Inr False \<and>
            response_of (get_status e (d(''file_ok'' \<mapsto> PBool b, ''lastbackup'' \<mapsto> PInt t)) mf mi)
              = response_of (get_status e d mf mi))
       \<and> (field_true d ''image_disabled'' \<longrightarrow>
            (\<exists>s. image_check (set_defaults d) = Inr (False, s)) \<and>
            image_old_check e (set_defaults d) mi = Inr False \<and>
            response_of (get_status e (d(''image_ok'' \<mapsto> PBool b, ''lastbackup_image'' \<mapsto> PInt t)) mf mi)
              = response_of (get_status e d mf mi))"
proof -
  from assms(1) have w: 
    "is_bool (d ''file_ok'')" "is_bool (d ''image_ok'')"
    "is_opt_bool (d ''file_disabled'')" "is_opt_bool (d ''image_disabled'')"
    "is_time e (d ''lastbackup'')" "is_time e (d ''lastbackup_image'')"
    by (simp_all add: wf_client_def)
  have f_eq: "response_of (get_status e (d(''file_ok'' \<mapsto> PBool b, ''lastbackup'' \<mapsto> PInt t)) mf mi)
        = response_of (get_status e d mf mi)" if "field_true d ''file_disabled''"
    unfolding get_status_wf [OF assms(1)] get_status_wf [OF wf_client_upd_file [OF assms]]
    using that
    by (simp add: response_of_def Let_def type_failed_def type_str_def
        details_without_file [where s = "If _ _ _"])
  have i_eq: "response_of (get_status e (d(''image_ok'' \<mapsto> PBool b, ''lastbackup_image'' \<mapsto> PInt t)) mf mi)
        = response_of (get_status e d mf mi)" if "field_true d ''image_disabled''"
    unfolding get_status_wf [OF assms(1)] get_status_wf [OF wf_client_upd_image [OF assms]]
    using that
    by (simp add: response_of_def Let_def type_failed_def type_str_def
        details_without_image [where istr = "If _ _ _"])
  show ?thesis
    using f_eq i_eq
    by (simp add: file_check_wf [OF w(1,3)] image_check_wf [OF w(2,4)]
        file_old_check_wf [OF w(3,5)] image_old_check_wf [OF w(4,6)]
        type_failed_def)
qed


theorem disabled_type_masked_witness:
  "wf_client demo_env client_d \<and> \<not> isl (fromtimestamp demo_env 882000) \<and>
   field_true client_d ''file_disabled'' \<and> field_true client_d ''image_disabled'' \<and>
   file_check (set_defaults client_d) = Inr (False, ''Disabled'') \<and>
   image_check (set_defaults client_d) = Inr (False, ''Disabled'') \<and>
   file_old_check demo_env (set_defaults client_d) (Some (- 1)) = Inr False \<and>
   image_old_check demo_env (set_defaults client_d) (Some (- 1)) = Inr False \<and>
   response_of (get_status demo_env client_d (Some (- 1)) (Some (- 1)))
     = Inr \<lparr>status = OK, error = []\<rparr> \<and>
   response_of (get_status demo_env
       (client_d(''file_ok'' \<mapsto> PBool True, ''lastbackup'' \<mapsto> PInt 882000)) (Some (- 1)) (Some (- 1)))
     = Inr \<lparr>status = OK, error = []\<rparr> \<and>
   response_of (get_status demo_env
       (client_d(''image_ok'' \<mapsto> PBool True, ''lastbackup_image'' \<mapsto> PInt 882000)) (Some (- 1)) (Some (- 1)))
     = Inr \<lparr>status = OK, error = []\<rparr>"
  using disabled_type_masked [of demo_env client_d 882000 "Some (- 1)" True "Some (- 1)"]
  by (simp add: eval_unfold client_d_def demo_env_def)

subsection \<open>The effect on the record\<close>

text \<open>
  Claim C7 as stated, the record is the same after the call as before it, fails: the
  record \<open>client_a\<close> has no \<^verbatim>\<open>"file_disabled"\<close> key before the call and holds \<^verbatim>\<open>False\<close>
  under it afterwards.
\<close>

theorem get_status_mutates_record:
  "get_status demo_env client_a None None
     = Inr (\<lparr>status = OK, error = []\<rparr>,
            client_a(''file_disabled'' \<mapsto> PBool False, ''image_disabled'' \<mapsto> PBool False)) \<and>
   client_a ''file_disabled'' = None \<and>
   client_a(''file_disabled'' \<mapsto> PBool False, ''image_disabled'' \<mapsto> PBool False) \<noteq> client_a"
proof -
  have n: "client_a ''file_disabled'' = None" "client_a ''image_disabled'' = None"
    by (simp_all add: client_a_def)
  have "(client_a(''file_disabled'' \<mapsto> PBool False, ''image_disabled'' \<mapsto> PBool False))
          ''file_disabled'' \<noteq> client_a ''file_disabled''"
    using n by simp
  then have "client_a(''file_disabled'' \<mapsto> PBool False, ''image_disabled'' \<mapsto> PBool False)
          \<noteq> client_a"
    by metis
  then show ?thesis using n by (simp add: get_status_client_a set_defaults_def)
qed

text \<open>
  Claim C7 as amended. When \<open>get_status\<close> returns, every field that the record held
  keeps its value, the only keys added are \<^verbatim>\<open>"file_disabled"\<close> and
  \<^verbatim>\<open>"image_disabled"\<close>, each with the value \<^verbatim>\<open>False\<close> and only when absent before, and a
  record that held both keys is unchanged.
\<close>

theorem get_status_record_effect:
  assumes "get_status e d mf mi = Inr (r, d')"
  shows "(\<forall>k v. d k = Some v \<longrightarrow> d' k = Some v) \<and>
         (\<forall>k. d k = None \<longrightarrow>
            d' k = (if k = ''file_disabled'' \<or> k = ''image_disabled'' then Some (PBool False) else None)) \<and>
         (d ''file_disabled'' \<noteq> None \<and> d ''image_disabled'' \<noteq> None \<longrightarrow> d' = d)"
proof -
  have d': "d' = set_defaults d" using assms by (rule get_status_dict)
  show ?thesis unfolding d' by (auto simp: set_defaults_apply fun_eq_iff)
qed

theorem get_status_record_effect_witness:
  "get_status demo_env client_d None None = Inr (\<lparr>status = OK, error = []\<rparr>, client_d) \<and>
   client_d ''file_disabled'' \<noteq> None \<and> client_d ''image_disabled'' \<noteq> None"
proof -
  have g: "get_status demo_env client_d None None
             = Inr (\<lparr>status = OK, error = []\<rparr>, set_defaults client_d)"
    by (simp add: eval_unfold client_d_def demo_env_def)
  have p: "client_d ''file_disabled'' \<noteq> None \<and> client_d ''image_disabled'' \<noteq> None"
    by (simp add: client_d_def)
  with get_status_record_effect [OF g] have "set_defaults client_d = client_d" by blast
  with g p show ?thesis by simp
qed


section \<open>Aggregation\<close>

lemma incr_keys_ok:
  "keys_ok c \<Longrightarrow> incr c (Status_key s) = Inr (bump c (Status_key s))"
  "keys_ok c \<Longrightarrow> incr c (Str_key ''all'') = Inr (bump c (Str_key ''all''))"
  by (cases s; auto simp: keys_ok_def incr_def bump_def)+

lemma keys_ok_bump [simp]: "keys_ok (bump c k) = keys_ok c"
  by (auto simp: keys_ok_def bump_def split: option.splits)

lemma keys_ok_merge [simp]: "keys_ok (global_count (merge g r)) = keys_ok (global_count g)"
  by (simp add: merge_def)

lemma client_step_eval:
  assumes "keys_ok (global_count g)"
  shows "client_step e a regex c g =
     (case client_eval e a regex c of
        Inl x \<Rightarrow> Inl x
      | Inr None \<Rightarrow> Inr (g, c)
      | Inr (Some (r, c')) \<Rightarrow> Inr (merge g r, c'))"
proof (cases "getitem c ''name''")
  case (Inl x)
  then show ?thesis by (simp add: client_step_def client_eval_def)
next
  case name: (Inr name)
  show ?thesis
  proof (cases "fullmatch regex name")
    case (Inl x)
    then show ?thesis using name by (simp add: client_step_def client_eval_def)
  next
    case m: (Inr m)
    show ?thesis
    proof (cases "get_status e c (maxfiledays a) (maximagedays a)")
      case (Inl x)
      then show ?thesis using name m by (simp add: client_step_def client_eval_def)
    next
      case (Inr rc)
      obtain r c' where rc: "rc = (r, c')" by (cases rc)
      have k: "keys_ok (bump (global_count g) (Status_key (status r)))" using assms by simp
      show ?thesis using name m Inr rc
        by (simp add: client_step_def client_eval_def incr_keys_ok(1) [OF assms]
            incr_keys_ok(2) [OF k] merge_def Let_def)
    qed
  qed
qed

lemma responses_Nil [simp]: "responses e a regex [] = []"
  by (simp add: responses_def List.map_filter_simps)

lemma responses_Cons:
  "responses e a regex (c # cs) =
     (case client_eval e a regex c of
        Inr (Some (r, c')) \<Rightarrow> r # responses e a regex cs
      | _ \<Rightarrow> responses e a regex cs)"
  by (simp add: responses_def List.map_filter_simps split: sum.splits option.splits prod.splits)

lemma fold_clients_ok:
  assumes "keys_ok (global_count g)" "list_all (evaluates e a regex) cs"
  shows "fold_clients e a regex cs g
           = Inr (foldl merge g (responses e a regex cs), map (client_after e a regex) cs)"
  using assms
proof (induction cs arbitrary: g)
  case Nil
  then show ?case by simp
next
  case (Cons c cs)
  from Cons.prems(2) have c: "evaluates e a regex c" and cs: "list_all (evaluates e a regex) cs"
    by simp_all
  from c obtain x where x: "client_eval e a regex c = Inr x"
    by (auto simp: evaluates_def dest: not_isl_Inr)
  show ?case
  proof (cases x)
    case None
    then show ?thesis
      using x Cons.IH [OF Cons.prems(1) cs]
      by (simp add: client_step_eval [OF Cons.prems(1)] responses_Cons client_after_def)
  next
    case (Some rc)
    obtain r c' where rc: "rc = (r, c')" by (cases rc)
    have k: "keys_ok (global_count (merge g r))" using Cons.prems(1) by simp
    show ?thesis
      using x Some rc Cons.IH [OF k cs]
      by (simp add: client_step_eval [OF Cons.prems(1)] responses_Cons client_after_def)
  qed
qed

lemma fold_clients_Inr_ok:
  assumes "keys_ok (global_count g)" "fold_clients e a regex cs g = Inr x"
  shows "list_all (evaluates e a regex) cs"
  using assms
proof (induction cs arbitrary: g x)
  case Nil
  then show ?case by simp
next
  case (Cons c cs)
  from Cons.prems(2) obtain g1 c1 y where
    step: "client_step e a regex c g = Inr (g1, c1)" and rest: "fold_clients e a regex cs g1 = Inr y"
    by (auto simp: and_then_eq_Inr)
  have ev: "evaluates e a regex c" and k: "keys_ok (global_count g1)"
    using step Cons.prems(1)
    by (auto simp: client_step_eval [OF Cons.prems(1)] evaluates_def
        split: sum.splits option.splits)
  show ?case using ev Cons.IH [OF k rest] by simp
qed

lemma status_merge: "global_status (merge g r) = merge_table (global_status g) (status r)"
  by (cases "global_status g"; cases "status r") (simp_all add: merge_def)

lemma status_foldl_merge:
  "global_status (foldl merge g rs) = foldl merge_table (global_status g) (map status rs)"
  by (induction rs arbitrary: g) (simp_all add: status_merge)

lemma merge_table_CRITICAL [simp]: "merge_table s CRITICAL = CRITICAL"
  by (cases s) simp_all

lemma merge_table_OK [simp]: "merge_table s OK = s"
  by (cases s) simp_all

text \<open>The merged status is the more severe of the two, by the enumeration's values.\<close>

lemma merge_table_max:
  "enum_value (merge_table s new) = max (enum_value s) (enum_value new)"
  by (cases s; cases new) simp_all

lemma foldl_merge_table_CRITICAL [simp]: "foldl merge_table CRITICAL ss = CRITICAL"
  by (induction ss) simp_all

lemma foldl_merge_table_set:
  "foldl merge_table s ss =
     (if s = CRITICAL \<or> CRITICAL \<in> set ss then CRITICAL
      else if s = WARNING \<or> WARNING \<in> set ss then WARNING else OK)"
proof (induction ss arbitrary: s)
  case Nil
  then show ?case by (cases s) simp_all
next
  case (Cons x ss)
  show ?case unfolding foldl_Cons Cons.IH by (cases s; cases x) auto
qed

lemma details_foldl_merge:
  "global_details (foldl merge g rs)
     = global_details g @ concat (map detail_block (filter (\<lambda>r. status r \<noteq> OK) rs))"
  by (induction rs arbitrary: g) (simp_all add: merge_def detail_block_def)

lemma bump_apply: "bump c k k' = (if k' = k then map_option (\<lambda>v. v + 1) (c k) else c k')"
  by (simp add: bump_def split: option.splits)

lemma count_merge:
  "global_count (merge g r) k = map_option (\<lambda>v. v + tally [r] k) (global_count g k)"
  by (cases k) (auto simp: merge_def bump_apply tally_def option.map_comp comp_def option.map_ident)

lemma tally_Cons: "tally (r # rs) k = tally [r] k + tally rs k"
  by (simp add: tally_def split: count_key.splits)

lemma tally_Nil [simp]: "tally [] k = 0"
  by (simp add: tally_def split: count_key.splits)

lemma count_foldl_merge:
  "global_count (foldl merge g rs) k = map_option (\<lambda>v. v + tally rs k) (global_count g k)"
proof (induction rs arbitrary: g)
  case Nil
  then show ?case by (simp add: option.map_ident)
next
  case (Cons r rs)
  show ?case
    unfolding foldl_Cons Cons.IH count_merge tally_Cons [of r rs]
    by (simp add: option.map_comp comp_def add.assoc)
qed

lemma keys_ok_init [simp]: "keys_ok (global_count init_gstate)"
  by (simp add: init_gstate_def keys_ok_def)

lemma get_global_status_Inr:
  assumes "re_compile e p = Inr regex"
  shows "get_global_status e a cs p = Inr ((s, d, c), u) \<longleftrightarrow>
     (list_all (evaluates e a regex) cs \<and>
      s = global_status (foldl merge init_gstate (responses e a regex cs)) \<and>
      d = global_details (foldl merge init_gstate (responses e a regex cs)) \<and>
      c = global_count (foldl merge init_gstate (responses e a regex cs)) \<and>
      u = map (client_after e a regex) cs)"
proof
  assume r: "get_global_status e a cs p = Inr ((s, d, c), u)"
  then obtain x where x: "fold_clients e a regex cs init_gstate = Inr x"
    using assms by (auto simp: get_global_status_def and_then_eq_Inr)
  have ok: "list_all (evaluates e a regex) cs"
    using fold_clients_Inr_ok [OF keys_ok_init x] .
  show "list_all (evaluates e a regex) cs \<and>
      s = global_status (foldl merge init_gstate (responses e a regex cs)) \<and>
      d = global_details (foldl merge init_gstate (responses e a regex cs)) \<and>
      c = global_count (foldl merge init_gstate (responses e a regex cs)) \<and>
      u = map (client_after e a regex) cs"
    using r assms ok by (simp add: get_global_status_def fold_clients_ok [OF keys_ok_init ok])
next
  assume h: "list_all (evaluates e a regex) cs \<and>
      s = global_status (foldl merge init_gstate (responses e a regex cs)) \<and>
      d = global_details (foldl merge init_gstate (responses e a regex cs)) \<and>
      c = global_count (foldl merge init_gstate (responses e a regex cs)) \<and>
      u = map (client_after e a regex) cs"
  then have ok: "list_all (evaluates e a regex) cs" by simp
  show "get_global_status e a cs p = Inr ((s, d, c), u)"
    using h assms by (simp add: get_global_status_def fold_clients_ok [OF keys_ok_init ok])
qed

lemma get_global_status_compiles:
  assumes "get_global_status e a cs p = Inr x"
  shows "\<exists>regex. re_compile e p = Inr regex"
  using assms by (auto simp: get_global_status_def and_then_eq_Inr)


lemma mset_map_filter:
  assumes "mset xs = mset ys"
  shows "mset (List.map_filter f xs) = mset (List.map_filter f ys)"
  using assms by (simp add: List.map_filter_def)

lemma mset_responses:
  assumes "mset cs' = mset cs"
  shows "mset (responses e a regex cs') = mset (responses e a regex cs)"
  unfolding responses_def using assms by (rule mset_map_filter)

lemma tally_mset:
  assumes "mset rs' = mset rs"
  shows "tally rs' k = tally rs k"
proof -
  have "length rs' = length rs" using assms by (metis size_mset)
  moreover have "length (filter P rs') = length (filter P rs)" for P
    using assms by (metis mset_filter size_mset)
  ultimately show ?thesis
    by (simp add: tally_def split: count_key.splits)
qed

lemma client_eval_Inr:
  assumes "client_eval e a regex c = Inr x"
  shows "(x = None \<and> \<not> name_matches regex c) \<or>
         (\<exists>r c'. x = Some (r, c') \<and> name_matches regex c \<and>
            get_status e c (maxfiledays a) (maximagedays a) = Inr (r, c'))"
proof -
  from assms obtain name m where name: "getitem c ''name'' = Inr name"
    and m: "fullmatch regex name = Inr m"
    by (auto simp: client_eval_def and_then_eq_Inr)
  from m obtain n where n: "name = PStr n" "m = regex n"
    by (cases name) auto
  from name n have cn: "c ''name'' = Some (PStr n)"
    by (auto simp: getitem_def split: option.splits)
  show ?thesis
    using assms cn n
    by (auto simp: client_eval_def name_matches_def and_then_eq_Inr split: if_splits)
qed

lemma evaluates_cases:
  assumes "evaluates e a regex c"
  obtains (skip) "client_eval e a regex c = Inr None" "\<not> name_matches regex c"
  | (run) r c' where "client_eval e a regex c = Inr (Some (r, c'))" "name_matches regex c"
      "get_status e c (maxfiledays a) (maximagedays a) = Inr (r, c')"
proof -
  from assms obtain x where x: "client_eval e a regex c = Inr x"
    by (auto simp: evaluates_def dest: not_isl_Inr)
  from client_eval_Inr [OF x] x skip run show ?thesis by blast
qed

lemma details_of_responses:
  assumes "list_all (evaluates e a regex) cs"
  shows "concat (map detail_block (filter (\<lambda>r. status r \<noteq> OK) (responses e a regex cs)))
           = concat (map (detail_of e a) (filter (name_matches regex) cs))"
  using assms
proof (induction cs)
  case Nil
  then show ?case by simp
next
  case (Cons c cs)
  then have c: "evaluates e a regex c" and IH: "concat (map detail_block (filter (\<lambda>r. status r \<noteq> OK) (responses e a regex cs)))
           = concat (map (detail_of e a) (filter (name_matches regex) cs))"
    by simp_all
  from c show ?case
  proof (cases rule: evaluates_cases)
    case skip
    then show ?thesis using IH by (simp add: responses_Cons)
  next
    case (run r c')
    have "detail_of e a c = (if status r = OK then [] else detail_block r)"
      using run(3) by (simp add: detail_of_def detail_block_def)
    then show ?thesis using run(1,2) IH by (simp add: responses_Cons)
  qed
qed

lemma length_responses:
  assumes "list_all (evaluates e a regex) cs"
  shows "length (responses e a regex cs) = length (filter (name_matches regex) cs)"
  using assms
proof (induction cs)
  case Nil
  then show ?case by simp
next
  case (Cons c cs)
  then have c: "evaluates e a regex c"
    and IH: "length (responses e a regex cs) = length (filter (name_matches regex) cs)"
    by simp_all
  from c show ?case
    by (cases rule: evaluates_cases) (simp_all add: responses_Cons IH)
qed

lemma tally_sum:
  "tally rs (Status_key OK) + tally rs (Status_key WARNING) + tally rs (Status_key CRITICAL)
     = tally rs (Str_key ''all'')"
proof (induction rs)
  case Nil
  then show ?case by simp
next
  case (Cons r rs)
  have "tally [r] (Status_key OK) + tally [r] (Status_key WARNING) + tally [r] (Status_key CRITICAL)
          = tally [r] (Str_key ''all'')"
    by (cases "status r") (simp_all add: tally_def)
  with Cons.IH show ?case
    by (simp add: tally_Cons [of r rs])
qed

lemma fold_clients_state_Cons:
  "state_of (fold_clients e a regex (c # cs) g) =
     (case client_step e a regex c g of
        Inl x \<Rightarrow> Inl x
      | Inr (g', c') \<Rightarrow> state_of (fold_clients e a regex cs g'))"
  by (auto simp: state_of_def and_then_def split: sum.splits prod.splits)

lemma client_step_no_match:
  assumes "is_str (c ''name'')" "\<not> name_matches regex c"
  shows "client_step e a regex c g = Inr (g, c)"
proof -
  obtain n where n: "c ''name'' = Some (PStr n)" using is_strE [OF assms(1)] by blast
  with assms(2) show ?thesis by (simp add: client_step_def name_matches_def)
qed

lemma fold_clients_filter:
  assumes "list_all (\<lambda>c. is_str (c ''name'')) cs"
  shows "state_of (fold_clients e a regex cs g)
           = state_of (fold_clients e a regex (filter (name_matches regex) cs) g)"
  using assms
proof (induction cs arbitrary: g)
  case Nil
  then show ?case by simp
next
  case (Cons c cs)
  from Cons.prems have c: "is_str (c ''name'')" and cs: "list_all (\<lambda>c. is_str (c ''name'')) cs"
    by simp_all
  have IH: "\<And>g. state_of (fold_clients e a regex cs g)
           = state_of (fold_clients e a regex (filter (name_matches regex) cs) g)"
    using Cons.IH [OF cs] .
  show ?case
  proof (cases "name_matches regex c")
    case True
    then show ?thesis
      by (simp only: filter.simps if_True fold_clients_state_Cons IH)
  next
    case False
    then show ?thesis
      by (simp only: filter.simps if_False fold_clients_state_Cons
          client_step_no_match [OF c False] sum.case prod.case IH)
  qed
qed

lemma outcome_get_global_status:
  assumes "re_compile e p = Inr regex"
  shows "outcome (get_global_status e a cs p) =
     (case state_of (fold_clients e a regex cs init_gstate) of
        Inl x \<Rightarrow> Inl x
      | Inr g \<Rightarrow> Inr (global_status g, global_details g, counts_of (global_count g)))"
  using assms
  by (cases "fold_clients e a regex cs init_gstate")
    (auto simp: outcome_def get_global_status_def state_of_def)

text \<open>On well-formed records and a pattern that compiles, the aggregation returns.\<close>

lemma wf_client_evaluates:
  assumes "wf_client e c"
  shows "evaluates e a regex c"
proof -
  from assms have "is_str (c ''name'')" by (simp add: wf_client_def)
  then obtain n where n: "c ''name'' = Some (PStr n)" using is_strE by blast
  show ?thesis
    using n by (simp add: evaluates_def client_eval_def get_status_wf [OF assms])
qed

lemma get_global_status_total:
  assumes "re_compile e p = Inr regex" and "list_all (wf_client e) cs"
  shows "\<exists>s d c u. get_global_status e a cs p = Inr ((s, d, c), u)"
proof -
  have "list_all (evaluates e a regex) cs"
    using assms(2) by (induction cs) (simp_all add: wf_client_evaluates)
  then show ?thesis by (simp add: get_global_status_Inr [OF assms(1)])
qed

subsection \<open>Evaluation of concrete fleets\<close>

lemma get_status_client_b:
  "get_status demo_env client_b None None
     = Inr (\<lparr>status = WARNING, error = ''<b>HostName: b</b>, Online: False''\<rparr>,
            set_defaults client_b)"
  by (simp add: get_status_unfold client_b_def demo_env_def)

lemma get_status_client_c:
  "get_status demo_env client_c None None
     = Inr (\<lparr>status = CRITICAL,
             error = ''<b>HostName: c</b>, Online: True, <b>Status Filebackup: No recent backup</b>''\<rparr>,
            set_defaults client_c)"
  by (simp add: get_status_unfold client_c_def demo_env_def)

lemma demo_compile: "re_compile demo_env ''.*'' = Inr (\<lambda>s. CHR 0x0A \<notin> set s)"
  by (simp add: demo_env_def)

lemma demo_names:
  "client_a ''name'' = Some (PStr ''a'')" "client_b ''name'' = Some (PStr ''b'')"
  "client_c ''name'' = Some (PStr ''c'')"
  by (simp_all add: client_a_def client_b_def client_c_def)

lemmas aggregate_unfold =
  outcome_def counts_of_def get_global_status_def client_step_def demo_args_def
  incr_def init_gstate_def demo_compile demo_names
  get_status_client_a get_status_client_b get_status_client_c


lemma aggregate_c_b:
  "outcome (get_global_status demo_env demo_args [client_c, client_b] ''.*'')
     = Inr (CRITICAL,
            ''<b>HostName: c</b>, Online: True, <b>Status Filebackup: No recent backup</b>'' @ newline
              @ ''<b>HostName: b</b>, Online: False'' @ newline,
            [Some 0, Some 1, Some 1, Some 2])"
  by (simp add: aggregate_unfold)

lemma aggregate_b_c:
  "outcome (get_global_status demo_env demo_args [client_b, client_c] ''.*'')
     = Inr (CRITICAL,
            ''<b>HostName: b</b>, Online: False'' @ newline
              @ ''<b>HostName: c</b>, Online: True, <b>Status Filebackup: No recent backup</b>'' @ newline,
            [Some 0, Some 1, Some 1, Some 2])"
  by (simp add: aggregate_unfold)

lemma outcome_InrE:
  assumes "outcome r = Inr (s, d, n)"
  obtains c u where "r = Inr ((s, d, c), u)" "counts_of c = n"
  using assms by (auto simp: outcome_def split: sum.splits prod.splits)

lemma demo_compile_b: "re_compile demo_env ''b'' = Inr (\<lambda>s. s = ''b'')"
  by (simp add: demo_env_def)

lemma demo_compile_zz: "re_compile demo_env ''zz'' = Inr (\<lambda>s. s = ''zz'')"
  by (simp add: demo_env_def)

lemma aggregate_c_a_b:
  "outcome (get_global_status demo_env demo_args [client_c, client_a, client_b] ''.*'')
     = Inr (CRITICAL,
            ''<b>HostName: c</b>, Online: True, <b>Status Filebackup: No recent backup</b>'' @ newline
              @ ''<b>HostName: b</b>, Online: False'' @ newline,
            [Some 1, Some 1, Some 1, Some 3])"
  by (simp add: aggregate_unfold)

lemma aggregate_only_b:
  "outcome (get_global_status demo_env demo_args [client_a, client_b, client_c] ''b'')
     = Inr (WARNING, ''<b>HostName: b</b>, Online: False'' @ newline,
            [Some 0, Some 1, Some 0, Some 1])"
  by (simp add: aggregate_unfold demo_compile_b)

lemma aggregate_b_alone:
  "outcome (get_global_status demo_env demo_args [client_b] ''b'')
     = Inr (WARNING, ''<b>HostName: b</b>, Online: False'' @ newline,
            [Some 0, Some 1, Some 0, Some 1])"
  by (simp add: aggregate_unfold demo_compile_b)

lemma demo_named: "list_all (\<lambda>c. is_str (c ''name'')) [client_a, client_b, client_bb]"
  by (simp add: demo_names client_bb_def)

lemma filter_b:
  "filter (name_matches (\<lambda>s. s = ''b'')) [client_a, client_b, client_bb] = [client_b]"
  by (simp add: name_matches_def demo_names client_bb_def)

lemma filter_zz:
  "filter (name_matches (\<lambda>s. s = ''zz'')) [client_a, client_b, client_bb] = []"
  by (simp add: name_matches_def demo_names client_bb_def)

subsection \<open>Severity never decreases\<close>



subsection \<open>The order of the records\<close>

text \<open>
  Claim C8. When the aggregation of a collection returns, the aggregation of every
  permutation of it returns the same overall status and the same count dictionary; only
  the detail text and the order of the dictionaries left behind may differ.
\<close>

theorem aggregation_order_independent:
  assumes "mset cs' = mset cs"
      and "get_global_status e a cs p = Inr ((s, d, c), u)"
  shows "\<exists>d' u'. get_global_status e a cs' p = Inr ((s, d', c), u')"
proof -
  obtain regex where rx: "re_compile e p = Inr regex"
    using get_global_status_compiles [OF assms(2)] by blast
  let ?rs = "responses e a regex cs" and ?rs' = "responses e a regex cs'"
  have m: "mset ?rs' = mset ?rs" using assms(1) by (rule mset_responses)
  from assms(2) have ok: "list_all (evaluates e a regex) cs"
    and s: "s = global_status (foldl merge init_gstate ?rs)"
    and c: "c = global_count (foldl merge init_gstate ?rs)"
    by (simp_all add: get_global_status_Inr [OF rx])
  have "set cs' = set cs" using assms(1) by (metis set_mset_mset)
  with ok have ok': "list_all (evaluates e a regex) cs'" by (simp add: list_all_iff)
  have "set (map status ?rs') = set (map status ?rs)"
    using m by (metis set_mset_mset mset_map)
  then have s': "global_status (foldl merge init_gstate ?rs') = s"
    unfolding s status_foldl_merge foldl_merge_table_set by simp
  have c': "global_count (foldl merge init_gstate ?rs') = c"
    unfolding c by (rule ext) (simp add: count_foldl_merge tally_mset [OF m])
  show ?thesis
    using ok' s' c' by (simp add: get_global_status_Inr [OF rx])
qed

theorem aggregation_order_independent_witness:
  "mset [client_b, client_c] = mset [client_c, client_b] \<and>
   outcome (get_global_status demo_env demo_args [client_c, client_b] ''.*'')
     = Inr (CRITICAL,
            ''<b>HostName: c</b>, Online: True, <b>Status Filebackup: No recent backup</b>'' @ newline
              @ ''<b>HostName: b</b>, Online: False'' @ newline,
            [Some 0, Some 1, Some 1, Some 2]) \<and>
   outcome (get_global_status demo_env demo_args [client_b, client_c] ''.*'')
     = Inr (CRITICAL,
            ''<b>HostName: b</b>, Online: False'' @ newline
              @ ''<b>HostName: c</b>, Online: True, <b>Status Filebackup: No recent backup</b>'' @ newline,
            [Some 0, Some 1, Some 1, Some 2])"
proof -
  have m: "mset [client_b, client_c] = mset [client_c, client_b]" by (simp add: add.commute)
  obtain s d c u where h: "get_global_status demo_env demo_args [client_c, client_b] ''.*''
      = Inr ((s, d, c), u)"
    using aggregate_c_b by (auto simp: outcome_def split: sum.splits prod.splits)
  obtain d' u' where "get_global_status demo_env demo_args [client_b, client_c] ''.*''
      = Inr ((s, d', c), u')"
    using aggregation_order_independent [OF m h] by blast
  then show ?thesis using m aggregate_c_b aggregate_b_c by simp
qed

subsection \<open>The name filter\<close>

lemma incr_Inr:
  assumes "incr m k = Inr m'"
  shows "\<exists>v. m k = Some v \<and> m' = m(k \<mapsto> v + 1)"
  using assms by (auto simp: incr_def split: option.splits)

lemma client_step_match_count:
  assumes "name_matches regex c" and "client_step e a regex c g = Inr (g', c')"
  shows "\<exists>st count1.
           get_status e c (maxfiledays a) (maximagedays a) = Inr (st, c') \<and>
           incr (global_count g) (Status_key (status st)) = Inr count1 \<and>
           incr count1 (Str_key ''all'') = Inr (global_count g')"
proof -
  from assms(1) obtain n where n: "c ''name'' = Some (PStr n)" "regex n"
    by (auto simp: name_matches_def split: option.splits pyval.splits)
  show ?thesis
  proof (cases "get_status e c (maxfiledays a) (maximagedays a)")
    case (Inl x)
    then show ?thesis using assms(2) n by (simp add: client_step_def)
  next
    case (Inr rc)
    obtain st c1 where rc: "rc = (st, c1)" by (cases rc)
    show ?thesis
    proof (cases "incr (global_count g) (Status_key (status st))")
      case (Inl x)
      then show ?thesis using assms(2) n Inr rc by (simp add: client_step_def)
    next
      case i1: (Inr count1)
      show ?thesis
      proof (cases "incr count1 (Str_key ''all'')")
        case (Inl x)
        then show ?thesis using assms(2) n Inr rc i1 by (simp add: client_step_def)
      next
        case i2: (Inr count2)
        have "global_count g' = count2 \<and> c' = c1"
          using assms(2) n Inr rc i1 i2
          by (auto simp: client_step_def Let_def split: if_splits)
        then show ?thesis using Inr rc i1 i2 by simp
      qed
    qed
  qed
qed

lemma client_step_match_changes:
  assumes "name_matches regex c"
  shows "client_step e a regex c g \<noteq> Inr (g, c)"
proof
  assume step: "client_step e a regex c g = Inr (g, c)"
  from client_step_match_count [OF assms step] obtain st :: BackupStatusResponse and count1 where
    c1: "incr (global_count g) (Status_key (status st)) = Inr count1" and
    c2: "incr count1 (Str_key ''all'') = Inr (global_count g)"
    by blast
  from incr_Inr [OF c1] obtain v where "count1 = (global_count g)(Status_key (status st) \<mapsto> v + 1)"
    by blast
  then have same: "count1 (Str_key ''all'') = global_count g (Str_key ''all'')" by simp
  from incr_Inr [OF c2] obtain w where w: "count1 (Str_key ''all'') = Some w"
    "global_count g = count1(Str_key ''all'' \<mapsto> w + 1)"
    by blast
  from w(2) have "global_count g (Str_key ''all'') = Some (w + 1)" by (metis fun_upd_same)
  with same w(1) show False by simp
qed


lemma client_after_evaluates:
  assumes "evaluates e a regex c"
  shows "client_after e a regex c = (if name_matches regex c then set_defaults c else c)"
  using assms
proof (cases rule: evaluates_cases)
  case skip
  then show ?thesis by (simp add: client_after_def)
next
  case (run r c')
  then show ?thesis using get_status_dict [OF run(3)] by (simp add: client_after_def)
qed

lemma map_client_after:
  assumes "list_all (evaluates e a regex) cs"
  shows "map (client_after e a regex) cs
           = map (\<lambda>c. if name_matches regex c then set_defaults c else c) cs"
  using assms by (induction cs) (simp_all add: client_after_evaluates)

lemma verdicts_of_responses:
  assumes "list_all (evaluates e a regex) cs"
  shows "length (filter (\<lambda>r. status r = t) (responses e a regex cs))
           = length (filter (verdict_is e a t) (filter (name_matches regex) cs))"
  using assms
proof (induction cs)
  case Nil
  then show ?case by simp
next
  case (Cons c cs)
  then have c: "evaluates e a regex c"
    and IH: "length (filter (\<lambda>r. status r = t) (responses e a regex cs))
           = length (filter (verdict_is e a t) (filter (name_matches regex) cs))"
    by simp_all
  from c show ?case
  proof (cases rule: evaluates_cases)
    case skip
    then show ?thesis using IH by (simp add: responses_Cons)
  next
    case (run r c')
    have "verdict_is e a t c = (status r = t)" using run(3) by (simp add: verdict_is_def)
    then show ?thesis using run(1,2) IH by (simp add: responses_Cons)
  qed
qed

text \<open>
  Claim C5. For a pattern that compiles and records whose names are strings:
  an iteration of the loop leaves the running state and the record as they are exactly
  when the compiled pattern does not match the whole name; the aggregation of the
  collection gives what the aggregation of its matching records alone gives, in status,
  detail text and counts; when no record matches, that is \<open>OK\<close> with an empty detail text
  and all counts zero; and when the aggregation returns, every matching record has taken
  part and no other: the count under each status is the number of matching records with
  that verdict, the count under \<^verbatim>\<open>"all"\<close> is the number of matching records, the detail
  text is made of the matching records' detail blocks, and the records that
  \<open>get_status\<close> has been called on, and so hold their defaults, are the matching ones.
\<close>

theorem only_matching_records_participate:
  assumes "re_compile e p = Inr regex"
      and "list_all (\<lambda>c. is_str (c ''name'')) cs"
  shows "(\<forall>g. list_all (\<lambda>c. (client_step e a regex c g = Inr (g, c)) = (\<not> name_matches regex c)) cs) \<and>
         outcome (get_global_status e a cs p)
           = outcome (get_global_status e a (filter (name_matches regex) cs) p) \<and>
         (filter (name_matches regex) cs = [] \<longrightarrow>
            outcome (get_global_status e a cs p) = Inr (OK, [], [Some 0, Some 0, Some 0, Some 0])) \<and>
         (\<forall>s d c u. get_global_status e a cs p = Inr ((s, d, c), u) \<longrightarrow>
            (\<forall>t. c (Status_key t)
                   = Some (int (length (filter (verdict_is e a t) (filter (name_matches regex) cs))))) \<and>
            c (Str_key ''all'') = Some (int (length (filter (name_matches regex) cs))) \<and>
            d = concat (map (detail_of e a) (filter (name_matches regex) cs)) \<and>
            u = map (\<lambda>c. if name_matches regex c then set_defaults c else c) cs)"
proof -
  have 1: "list_all (\<lambda>c. (client_step e a regex c g = Inr (g, c)) = (\<not> name_matches regex c)) cs"
    for g
    using assms(2)
  proof (induction cs)
    case Nil
    then show ?case by simp
  next
    case (Cons c cs)
    then have c: "is_str (c ''name'')" by simp
    have "(client_step e a regex c g = Inr (g, c)) = (\<not> name_matches regex c)"
      using client_step_no_match [of c regex e a g] c client_step_match_changes [of regex c e a g]
      by blast
    with Cons show ?case by simp
  qed
  have 2: "outcome (get_global_status e a cs p)
           = outcome (get_global_status e a (filter (name_matches regex) cs) p)"
    unfolding outcome_get_global_status [OF assms(1)]
    by (simp only: fold_clients_filter [OF assms(2)])
  have 3: "outcome (get_global_status e a [] p) = Inr (OK, [], [Some 0, Some 0, Some 0, Some 0])"
    using assms(1) by (simp add: outcome_def get_global_status_def init_gstate_def counts_of_def)
  have 4: "(\<forall>t. c (Status_key t)
                   = Some (int (length (filter (verdict_is e a t) (filter (name_matches regex) cs))))) \<and>
            c (Str_key ''all'') = Some (int (length (filter (name_matches regex) cs))) \<and>
            d = concat (map (detail_of e a) (filter (name_matches regex) cs)) \<and>
            u = map (\<lambda>c. if name_matches regex c then set_defaults c else c) cs"
    if r: "get_global_status e a cs p = Inr ((s, d, c), u)" for s d c u
  proof -
    let ?rs = "responses e a regex cs"
    from r have ok: "list_all (evaluates e a regex) cs"
      and d: "d = global_details (foldl merge init_gstate ?rs)"
      and c: "c = global_count (foldl merge init_gstate ?rs)"
      and u: "u = map (client_after e a regex) cs"
      by (simp_all add: get_global_status_Inr [OF assms(1)])
    have "c (Status_key t)
            = Some (int (length (filter (verdict_is e a t) (filter (name_matches regex) cs))))" for t
      unfolding c count_foldl_merge
      by (cases t) (simp_all add: init_gstate_def tally_def verdicts_of_responses [OF ok])
    moreover have "c (Str_key ''all'') = Some (int (length (filter (name_matches regex) cs)))"
      unfolding c count_foldl_merge
      by (simp add: init_gstate_def tally_def length_responses [OF ok])
    moreover have "d = concat (map (detail_of e a) (filter (name_matches regex) cs))"
      unfolding d details_foldl_merge details_of_responses [OF ok]
      by (simp add: init_gstate_def)
    ultimately show ?thesis using u map_client_after [OF ok] by simp
  qed
  show ?thesis using 1 2 3 4 by simp
qed


theorem only_matching_records_participate_witness:
  "re_compile demo_env ''b'' = Inr (\<lambda>s. s = ''b'') \<and>
   re_compile demo_env ''zz'' = Inr (\<lambda>s. s = ''zz'') \<and>
   list_all (\<lambda>c. is_str (c ''name'')) [client_a, client_b, client_bb] \<and>
   filter (name_matches (\<lambda>s. s = ''b'')) [client_a, client_b, client_bb] = [client_b] \<and>
   client_step demo_env demo_args (\<lambda>s. s = ''b'') client_bb init_gstate = Inr (init_gstate, client_bb) \<and>
   client_step demo_env demo_args (\<lambda>s. s = ''b'') client_b init_gstate \<noteq> Inr (init_gstate, client_b) \<and>
   outcome (get_global_status demo_env demo_args [client_a, client_b, client_bb] ''b'')
     = outcome (get_global_status demo_env demo_args [client_b] ''b'') \<and>
   outcome (get_global_status demo_env demo_args [client_b] ''b'')
     = Inr (WARNING, ''<b>HostName: b</b>, Online: False'' @ newline,
            [Some 0, Some 1, Some 0, Some 1]) \<and>
   filter (name_matches (\<lambda>s. s = ''zz'')) [client_a, client_b, client_bb] = [] \<and>
   outcome (get_global_status demo_env demo_args [client_a, client_b, client_bb] ''zz'')
     = Inr (OK, [], [Some 0, Some 0, Some 0, Some 0])"
proof -
  note b = only_matching_records_participate [OF demo_compile_b demo_named, of demo_args,
      unfolded filter_b]
  note zz = only_matching_records_participate [OF demo_compile_zz demo_named, of demo_args,
      unfolded filter_zz]
  have m: "\<not> name_matches (\<lambda>s. s = ''b'') client_bb" "name_matches (\<lambda>s. s = ''b'') client_b"
    by (simp_all add: name_matches_def demo_names client_bb_def)
  from b have "list_all (\<lambda>c. (client_step demo_env demo_args (\<lambda>s. s = ''b'') c init_gstate
        = Inr (init_gstate, c)) = (\<not> name_matches (\<lambda>s. s = ''b'') c)) [client_a, client_b, client_bb]"
    by blast
  with m have 0: "client_step demo_env demo_args (\<lambda>s. s = ''b'') client_bb init_gstate
        = Inr (init_gstate, client_bb)"
      "client_step demo_env demo_args (\<lambda>s. s = ''b'') client_b init_gstate
        \<noteq> Inr (init_gstate, client_b)"
    by simp_all
  from b have 1: "outcome (get_global_status demo_env demo_args [client_a, client_b, client_bb] ''b'')
     = outcome (get_global_status demo_env demo_args [client_b] ''b'')"
    by blast
  from zz have 2: "outcome (get_global_status demo_env demo_args [client_a, client_b, client_bb] ''zz'')
     = Inr (OK, [], [Some 0, Some 0, Some 0, Some 0])"
    by blast
  show ?thesis
    by (intro conjI)
      (rule demo_compile_b demo_compile_zz demo_named filter_b 0 1 aggregate_b_alone filter_zz 2)+
qed

subsection \<open>The detail text\<close>

text \<open>
  Claim C9. When the aggregation returns, its detail text is the concatenation, in input
  order, over the records whose names match, of nothing for a record whose verdict is
  \<open>OK\<close> and of the record's detail text and a line break otherwise, whatever the running
  status was when the record was reached.
\<close>

theorem details_in_input_order:
  assumes "re_compile e p = Inr regex"
      and "get_global_status e a cs p = Inr ((s, d, c), u)"
  shows "d = concat (map (detail_of e a) (filter (name_matches regex) cs))"
proof -
  from assms(2) have ok: "list_all (evaluates e a regex) cs"
    and d: "d = global_details (foldl merge init_gstate (responses e a regex cs))"
    by (simp_all add: get_global_status_Inr [OF assms(1)])
  show ?thesis
    unfolding d details_foldl_merge details_of_responses [OF ok]
    by (simp add: init_gstate_def)
qed

theorem details_in_input_order_witness:
  "re_compile demo_env ''.*'' = Inr (\<lambda>s. CHR 0x0A \<notin> set s) \<and>
   outcome (get_global_status demo_env demo_args [client_c, client_a, client_b] ''.*'')
     = Inr (CRITICAL,
            ''<b>HostName: c</b>, Online: True, <b>Status Filebackup: No recent backup</b>'' @ newline
              @ ''<b>HostName: b</b>, Online: False'' @ newline,
            [Some 1, Some 1, Some 1, Some 3]) \<and>
   concat (map (detail_of demo_env demo_args)
       (filter (name_matches (\<lambda>s. CHR 0x0A \<notin> set s)) [client_c, client_a, client_b]))
     = ''<b>HostName: c</b>, Online: True, <b>Status Filebackup: No recent backup</b>'' @ newline
         @ ''<b>HostName: b</b>, Online: False'' @ newline"
proof -
  obtain c u where h: "get_global_status demo_env demo_args [client_c, client_a, client_b] ''.*''
      = Inr ((CRITICAL,
              ''<b>HostName: c</b>, Online: True, <b>Status Filebackup: No recent backup</b>'' @ newline
                @ ''<b>HostName: b</b>, Online: False'' @ newline, c), u)"
    using aggregate_c_a_b by (rule outcome_InrE)
  show ?thesis
    using details_in_input_order [OF demo_compile h] aggregate_c_a_b demo_compile by simp
qed

subsection \<open>The counts\<close>

text \<open>
  Claim C10. When the aggregation returns, the count dictionary holds a number under each
  of its four keys, the counts of \<open>OK\<close>, \<open>WARNING\<close> and \<open>CRITICAL\<close> add up to the count
  under \<^verbatim>\<open>"all"\<close>, and that count is the number of input records whose names match
  the pattern.
\<close>

theorem counts_add_up:
  assumes "re_compile e p = Inr regex"
      and "get_global_status e a cs p = Inr ((s, d, c), u)"
  shows "\<exists>n_ok n_warning n_critical n_all.
           counts_of c = [Some n_ok, Some n_warning, Some n_critical, Some n_all] \<and>
           n_ok + n_warning + n_critical = n_all \<and>
           n_all = int (length (filter (name_matches regex) cs))"
proof -
  let ?rs = "responses e a regex cs"
  from assms(2) have ok: "list_all (evaluates e a regex) cs"
    and c: "c = global_count (foldl merge init_gstate ?rs)"
    by (simp_all add: get_global_status_Inr [OF assms(1)])
  have "counts_of c = [Some (tally ?rs (Status_key OK)), Some (tally ?rs (Status_key WARNING)),
                       Some (tally ?rs (Status_key CRITICAL)), Some (tally ?rs (Str_key ''all''))]"
    unfolding c counts_of_def by (simp add: count_foldl_merge init_gstate_def)
  moreover have "tally ?rs (Str_key ''all'') = int (length (filter (name_matches regex) cs))"
    by (simp add: tally_def length_responses [OF ok])
  ultimately show ?thesis using tally_sum [of ?rs] by simp
qed


theorem counts_add_up_witness:
  "re_compile demo_env ''b'' = Inr (\<lambda>s. s = ''b'') \<and>
   outcome (get_global_status demo_env demo_args [client_a, client_b, client_c] ''b'')
     = Inr (WARNING, ''<b>HostName: b</b>, Online: False'' @ newline,
            [Some 0, Some 1, Some 0, Some 1]) \<and>
   int (length (filter (name_matches (\<lambda>s. s = ''b'')) [client_a, client_b, client_c])) = 1"
proof -
  obtain c u where h: "get_global_status demo_env demo_args [client_a, client_b, client_c] ''b''
      = Inr ((WARNING, ''<b>HostName: b</b>, Online: False'' @ newline, c), u)"
    and "counts_of c = [Some 0, Some 1, Some 0, Some 1]"
    using aggregate_only_b by (rule outcome_InrE)
  with counts_add_up [OF demo_compile_b h]
  have "int (length (filter (name_matches (\<lambda>s. s = ''b'')) [client_a, client_b, client_c])) = 1"
    by simp
  then show ?thesis using aggregate_only_b demo_compile_b by simp
qed

section \<open>The command line layer\<close>

lemma report_raises:
  "(if st = CRITICAL then and_then (enum_getitem st k1) f1
    else if st = WARNING then and_then (enum_getitem st k2) f2
    else if st = OK then and_then (enum_getitem st k3) f3
    else (Inr ([], None) :: py_error + (out_line list \<times> nat option))) = Inl TypeError"
  by (cases st) (simp_all add: enum_getitem_def)

lemma try_body_raises: "\<exists>x. try_body e a fetched = Inl x"
proof (cases fetched)
  case (Inl x)
  then show ?thesis by (simp add: try_body_def)
next
  case (Inr clients)
  show ?thesis
  proof (cases "case clients of
                  None \<Rightarrow> and_then (re_compile e (client a)) (\<lambda>regex. Inl TypeError)
                | Some cs \<Rightarrow> get_global_status e a cs (client a)")
    case (Inl x)
    then show ?thesis using Inr by (simp add: try_body_def)
  next
    case inr: (Inr r)
    obtain st details count cs' where r: "r = ((st, details, count), cs')"
      by (metis prod.exhaust)
    show ?thesis using Inr inr r report_raises
      by (simp add: try_body_def)
  qed
qed

text \<open>
  Whatever the server answers, the program prints the exception and \<^verbatim>\<open>UNKOWN\<close> and
  exits with code 3: the exit codes 0, 1 and 2 of lines 187, 191 and 194 are never reached.
\<close>

lemma main_always_unknown: "\<exists>x. main e a fetched = ([ErrorLine x, Line ''UNKOWN''], 3)"
proof -
  obtain x where "try_body e a fetched = Inl x" using try_body_raises by blast
  then show ?thesis by (simp add: main_def)
qed

lemma main_after_aggregation:
  assumes "get_global_status e a cs (client a) = Inr r"
  shows "main e a (Inr (Some cs)) = ([ErrorLine TypeError, Line ''UNKOWN''], 3)"
proof -
  obtain st details count cs' where r: "r = ((st, details, count), cs')"
    by (metis prod.exhaust)
  have "try_body e a (Inr (Some cs)) = Inl TypeError"
    using assms r report_raises by (simp add: try_body_def)
  then show ?thesis by (simp add: main_def)
qed

lemma aggregate_client_a:
  "outcome (get_global_status demo_env demo_args [client_a] ''.*'')
     = Inr (OK, [], [Some 1, Some 0, Some 0, Some 1])"
proof -
  have "re_compile demo_env ''.*'' = Inr (\<lambda>s. CHR 0x0A \<notin> set s)"
    by (simp add: demo_env_def)
  moreover have "client_a ''name'' = Some (PStr ''a'')"
    by (simp add: client_a_def)
  ultimately show ?thesis
    by (simp add: outcome_def counts_of_def get_global_status_def client_step_def demo_args_def
        get_status_client_a incr_def init_gstate_def)
qed

text \<open>
  Claim C6, exit codes \<open>OK \<rightarrow> 0\<close>, \<open>WARNING \<rightarrow> 1\<close>, \<open>CRITICAL \<rightarrow> 2\<close> after the counts have
  been printed. The code does not do this. For the single healthy client \<open>a\<close> the
  aggregation gives \<open>OK\<close> with the counts \<open>OK = 1\<close>, \<open>all = 1\<close>, and the program then
  prints no count line at all: it prints the \<^verbatim>\<open>TypeError\<close> raised by line 193 and
  \<^verbatim>\<open>UNKOWN\<close>, and exits with code 3 where the claim has code 0.
\<close>

theorem main_healthy_client_exits_unknown:
  "outcome (get_global_status demo_env demo_args [client_a] (client demo_args))
     = Inr (OK, [], [Some 1, Some 0, Some 0, Some 1])
   \<and> main demo_env demo_args (Inr (Some [client_a]))
     = ([ErrorLine TypeError, Line ''UNKOWN''], 3)"
proof -
  have c: "client demo_args = ''.*''" by (simp add: demo_args_def)
  obtain r where r: "get_global_status demo_env demo_args [client_a] (client demo_args) = Inr r"
    using aggregate_client_a c by (cases "get_global_status demo_env demo_args [client_a] ''.*''")
      (simp_all add: outcome_def)
  show ?thesis using main_after_aggregation [OF r] aggregate_client_a c by simp
qed

end
